theory Spec2Isabelle
  imports Main "HOL-Library.Word" "HOL-Library.AList"
begin

unbundle bit_operations_syntax

section \<open>Errors raised by the cache, its obfuscator and its queues\<close>

text \<open>
  Every \<open>throw\<close> of the sources is a value of this type. The constructor names follow the
  messages or error codes of the JavaScript: \<open>QueueFull\<close> is \<open>Error("Queue is full")\<close>,
  \<open>QueueEmpty\<close> is \<open>Error("Queue is empty")\<close>, \<open>HashKeyNotSet\<close> is
  \<open>Error("Cache hash key is not set.")\<close>, \<open>NON_CACHABLE_VALUE\<close> is the
  \<open>CacheException\<close> with that code, \<open>InvalidString\<close> is
  \<open>Error("Invalid string to decode.")\<close>, \<open>TypeError\<close> and \<open>SyntaxError\<close> are the
  built-in errors of the runtime, \<open>DecipherError\<close> is any error of
  \<open>createDecipheriv\<close>, \<open>update\<close> or \<open>final\<close>, and \<open>DelayTooLong\<close> is the error of
  \<open>setUnboundedTimeout\<close> for a delay above \<open>1e12\<close> milliseconds.
\<close>

datatype error =
    QueueFull
  | QueueEmpty
  | HashKeyNotSet
  | NON_CACHABLE_VALUE
  | InvalidString
  | TypeError
  | SyntaxError
  | DecipherError
  | DelayTooLong

section \<open>The bounded FIFO queue (class \<open>Queue\<close>)\<close>

text \<open>
  The JavaScript remainder operator \<open>%\<close> takes the sign of the dividend. A zero divisor
  gives \<open>NaN\<close> in JavaScript; the queue never reaches it, because a queue of capacity
  \<open>0\<close> is full and \<open>enqueue\<close> throws before the remainder is computed.
\<close>

definition js_rem :: "int \<Rightarrow> int \<Rightarrow> int" where
  "js_rem a b = sgn a * (\<bar>a\<bar> mod \<bar>b\<bar>)"

text \<open>
  The fields of the class. \<open>items\<close> is the array made by \<open>new Array(capacity)\<close>: a slot is
  \<open>None\<close> while it is a hole or has been reset to \<open>undefined\<close> by \<open>dequeue\<close>. The field
  \<open>size\<close> of the source is \<open>qsize\<close> here.
\<close>

record 'a queue =
  capacity :: int
  items :: "'a option list"
  front :: int
  qsize :: int
  rear :: int

definition Queue :: "nat \<Rightarrow> 'a queue" where
  "Queue c = \<lparr> capacity = int c, items = replicate c None, front = 0, qsize = 0,
               rear = int c - 1 \<rparr>"

definition isEmpty :: "('a, 'm) queue_scheme \<Rightarrow> bool" where
  "isEmpty q = (qsize q = 0)"

definition isFull :: "('a, 'm) queue_scheme \<Rightarrow> bool" where
  "isFull q = (qsize q = capacity q)"

definition enqueue :: "'a \<Rightarrow> ('a, 'm) queue_scheme \<Rightarrow> error + ('a, 'm) queue_scheme" where
  "enqueue item q =
     (if isFull q then Inl QueueFull
      else
        let r = js_rem (rear q + 1) (capacity q)
        in Inr (q\<lparr> rear := r,
                   items := (items q)[nat r := Some item],
                   qsize := qsize q + 1 \<rparr>))"

text \<open>
  \<open>dequeue\<close> returns the content of the front slot, which is \<open>undefined\<close> (\<open>None\<close>) when
  the slot holds nothing.
\<close>

definition dequeue :: "('a, 'm) queue_scheme \<Rightarrow> error + ('a option \<times> ('a, 'm) queue_scheme)" where
  "dequeue q =
     (if isEmpty q then Inl QueueEmpty
      else
        let item = items q ! nat (front q)
        in Inr (item,
                q\<lparr> items := (items q)[nat (front q) := None],
                   front := js_rem (front q + 1) (capacity q),
                   qsize := qsize q - 1 \<rparr>))"

definition peek :: "('a, 'm) queue_scheme \<Rightarrow> error + 'a option" where
  "peek q = (if isEmpty q then Inl QueueEmpty else Inr (items q ! nat (front q)))"

text \<open>
  The queue as the list of its slots from \<open>front\<close>, oldest first, and the invariant that
  ties \<open>rear\<close> to \<open>front\<close> and \<open>size\<close>.
\<close>

definition contents :: "('a, 'm) queue_scheme \<Rightarrow> 'a option list" where
  "contents q =
     map (\<lambda>i. items q ! nat ((front q + int i) mod capacity q)) [0..<nat (qsize q)]"

definition queue_inv :: "('a, 'm) queue_scheme \<Rightarrow> bool" where
  "queue_inv q \<longleftrightarrow>
     int (length (items q)) = capacity q \<and>
     0 \<le> qsize q \<and> qsize q \<le> capacity q \<and>
     (if capacity q = 0 then front q = 0 \<and> rear q = - 1
      else 0 \<le> front q \<and> front q < capacity q \<and>
           0 \<le> rear q \<and> rear q < capacity q \<and>
           (rear q + 1) mod capacity q = (front q + qsize q) mod capacity q)"

text \<open>Enqueueing a list of items one after the other, stopping at the first error.\<close>

fun enqueue_all :: "'a list \<Rightarrow> ('a, 'm) queue_scheme \<Rightarrow> error + ('a, 'm) queue_scheme" where
  "enqueue_all [] q = Inr q"
| "enqueue_all (x # xs) q =
     (case enqueue x q of Inl e \<Rightarrow> Inl e | Inr q' \<Rightarrow> enqueue_all xs q')"

section \<open>The write serializer (class \<open>ProcessQueue\<close>)\<close>

text \<open>
  What the code prints. Each entry stands for one call of \<open>console.error\<close>,
  \<open>console.warn\<close>, \<open>console.info\<close> or \<open>console.log\<close>, named after the fixed part of
  its message.
\<close>

datatype event = key_rotated | obfuscated | rotation_duration_changed

datatype console_entry =
    PROCESS_QUEUE_ERROR error
  | OBFUSCATOR_ERROR_before event error
  | OBFUSCATOR_ERROR_callback event error
  | OBFUSCATOR_ERROR_after event error
  | WARNING_key_collision
  | INFO_expired int nat
  | Log string

text \<open>
  The part of the JavaScript runtime that every piece of code can reach: the console.
  The state a queued function works on is any record that extends it.
\<close>

record runtime =
  console :: "console_entry list"

text \<open>
  A queued function is called on the state and either throws (or returns a promise that
  rejects), \<open>Inl\<close>, or returns a result, \<open>Inr\<close>; in both cases it may have changed the
  state. Its effect is taken at the call: the functions the cache enqueues are synchronous.
  The fields of a queue item are \<open>function\<close> (here \<open>func\<close>) and \<open>callback\<close>; a
  \<open>callback\<close> of \<open>null\<close> is \<open>None\<close>. Both are functions by their type, so the two
  \<open>assert\<close> calls of \<open>ProcessQueue.enqueue\<close> hold and the test \<open>!item\<close> of \<open>execute\<close>
  is false.
\<close>

record ('z, 'r) pitem =
  func :: "'z runtime_scheme \<Rightarrow> (error + 'r) \<times> 'z runtime_scheme"
  callback :: "('r \<Rightarrow> 'z runtime_scheme \<Rightarrow> (error + unit) \<times> 'z runtime_scheme) option"

text \<open>
  \<open>execute\<close> is an \<open>async\<close> function: it runs until an \<open>await\<close>, and the rest of its body
  runs later, when the event loop resumes it. \<open>frame\<close> is where the one running call of
  \<open>execute\<close> is suspended: at \<open>await item()\<close> with the result and the callback in hand,
  at \<open>await callback(result)\<close>, or nowhere.
\<close>

datatype ('z, 'r) frame =
    NotSuspended
  | AwaitItem 'r "('r \<Rightarrow> 'z runtime_scheme \<Rightarrow> (error + unit) \<times> 'z runtime_scheme) option"
  | AwaitCallback

fun suspended :: "('z, 'r) frame \<Rightarrow> bool" where
  "suspended NotSuspended = False"
| "suspended (AwaitItem result cb) = True"
| "suspended AwaitCallback = True"

record ('z, 'r) process_queue = "('z, 'r) pitem queue" +
  isExecuting :: bool
  frame :: "('z, 'r) frame"

definition ProcessQueue :: "nat \<Rightarrow> ('z, 'r) process_queue" where
  "ProcessQueue c = queue.extend (Queue c) \<lparr> isExecuting = False, frame = NotSuspended \<rparr>"

text \<open>
  The \<open>catch\<close> and \<open>finally\<close> blocks of \<open>execute\<close>: the error is printed, the flag is
  reset, and the call of \<open>execute\<close> is over.
\<close>

definition execute_catch ::
  "error \<Rightarrow> ('z, 'r) process_queue \<times> 'z runtime_scheme \<Rightarrow>
   ('z, 'r) process_queue \<times> 'z runtime_scheme" where
  "execute_catch e = (\<lambda>(pq, w).
     (pq\<lparr> isExecuting := False, frame := NotSuspended \<rparr>,
      w\<lparr> console := console w @ [PROCESS_QUEUE_ERROR e] \<rparr>))"

text \<open>
  The \<open>while\<close> loop of \<open>execute\<close> from its head to the next \<open>await\<close>, or to the end of
  \<open>execute\<close>. An empty front slot makes the destructuring of \<open>this.dequeue()\<close> throw a
  \<open>TypeError\<close>, inside the \<open>try\<close>.
\<close>

definition execute_loop ::
  "('z, 'r) process_queue \<times> 'z runtime_scheme \<Rightarrow> ('z, 'r) process_queue \<times> 'z runtime_scheme" where
  "execute_loop = (\<lambda>(pq, w).
     if isEmpty pq then (pq\<lparr> isExecuting := False, frame := NotSuspended \<rparr>, w)
     else
       case dequeue pq of
         Inl e \<Rightarrow> execute_catch e (pq, w)
       | Inr (None, pq') \<Rightarrow> execute_catch TypeError (pq', w)
       | Inr (Some it, pq') \<Rightarrow>
           (case func it w of
              (Inl e, w') \<Rightarrow> execute_catch e (pq', w')
            | (Inr result, w') \<Rightarrow> (pq'\<lparr> frame := AwaitItem result (callback it) \<rparr>, w')))"

definition execute ::
  "('z, 'r) process_queue \<times> 'z runtime_scheme \<Rightarrow> ('z, 'r) process_queue \<times> 'z runtime_scheme" where
  "execute = (\<lambda>(pq, w).
     if isEmpty pq \<or> isExecuting pq then (pq, w)
     else execute_loop (pq\<lparr> isExecuting := True \<rparr>, w))"

text \<open>The event loop resumes the suspended call of \<open>execute\<close> after its \<open>await\<close>.\<close>

definition execute_resume ::
  "('z, 'r) process_queue \<times> 'z runtime_scheme \<Rightarrow> ('z, 'r) process_queue \<times> 'z runtime_scheme" where
  "execute_resume = (\<lambda>(pq, w).
     case frame pq of
       NotSuspended \<Rightarrow> (pq, w)
     | AwaitItem result None \<Rightarrow> execute_loop (pq, w)
     | AwaitItem result (Some cb) \<Rightarrow>
         (case cb result w of
            (Inl e, w') \<Rightarrow> execute_catch e (pq, w')
          | (Inr u, w') \<Rightarrow> (pq\<lparr> frame := AwaitCallback \<rparr>, w'))
     | AwaitCallback \<Rightarrow> execute_loop (pq, w))"

text \<open>
  \<open>ProcessQueue.enqueue\<close>: \<open>super.enqueue\<close> of the item, whose error goes to the caller,
  then \<open>execute\<close> unless a call of it is running.
\<close>

definition pq_enqueue ::
  "('z runtime_scheme \<Rightarrow> (error + 'r) \<times> 'z runtime_scheme) \<Rightarrow>
   ('r \<Rightarrow> 'z runtime_scheme \<Rightarrow> (error + unit) \<times> 'z runtime_scheme) option \<Rightarrow>
   ('z, 'r) process_queue \<times> 'z runtime_scheme \<Rightarrow>
   error + ('z, 'r) process_queue \<times> 'z runtime_scheme" where
  "pq_enqueue item processCompleteCallback = (\<lambda>(pq, w).
     case enqueue \<lparr> func = item, callback = processCompleteCallback \<rparr> pq of
       Inl e \<Rightarrow> Inl e
     | Inr pq' \<Rightarrow> Inr (if \<not> isExecuting pq' then execute (pq', w) else (pq', w)))"

text \<open>Resuming the suspended \<open>execute\<close> a number of times, with nothing else in between.\<close>

fun resume_times ::
  "nat \<Rightarrow> ('z, 'r) process_queue \<times> 'z runtime_scheme \<Rightarrow>
   ('z, 'r) process_queue \<times> 'z runtime_scheme" where
  "resume_times 0 s = s"
| "resume_times (Suc n) s = resume_times n (execute_resume s)"

text \<open>
  Two functions to enqueue, after the usage example in the comment of the class: one
  prints a line and returns, the other throws.
\<close>

definition log_job :: "string \<Rightarrow> 'z runtime_scheme \<Rightarrow> (error + unit) \<times> 'z runtime_scheme" where
  "log_job m w = (Inr (), w\<lparr> console := console w @ [Log m] \<rparr>)"

definition throwing_job :: "error \<Rightarrow> 'z runtime_scheme \<Rightarrow> (error + unit) \<times> 'z runtime_scheme" where
  "throwing_job e w = (Inl e, w)"

text \<open>
  Several calls of \<open>enqueue\<close> in one synchronous block, none with a callback, and a run
  that makes them on a new \<open>ProcessQueue\<close> of capacity \<open>c\<close> with an empty console and
  then lets the event loop resume \<open>execute\<close> \<open>n\<close> times.
\<close>

fun pq_enqueue_all ::
  "('z runtime_scheme \<Rightarrow> (error + 'r) \<times> 'z runtime_scheme) list \<Rightarrow>
   ('z, 'r) process_queue \<times> 'z runtime_scheme \<Rightarrow>
   error + ('z, 'r) process_queue \<times> 'z runtime_scheme" where
  "pq_enqueue_all [] s = Inr s"
| "pq_enqueue_all (j # js) s =
     (case pq_enqueue j None s of Inl e \<Rightarrow> Inl e | Inr s' \<Rightarrow> pq_enqueue_all js s')"

definition run_jobs ::
  "nat \<Rightarrow> (runtime \<Rightarrow> (error + unit) \<times> runtime) list \<Rightarrow> nat \<Rightarrow>
   error + (unit, unit) process_queue \<times> runtime" where
  "run_jobs c js n =
     (case pq_enqueue_all js (ProcessQueue c, \<lparr> console = [] \<rparr>) of
        Inl e \<Rightarrow> Inl e
      | Inr s \<Rightarrow> Inr (resume_times n s))"

section \<open>Strings, bytes and values of the JavaScript runtime\<close>

text \<open>
  A JavaScript string is the list of its UTF-16 code units, so that \<open>charCodeAt\<close> is the
  element itself. \<open>str\<close> writes an ASCII literal as such a string. A \<open>Buffer\<close> is a
  list of bytes.
\<close>

type_synonym jsstring = "nat list"

type_synonym bytes = "8 word list"

definition str :: "string \<Rightarrow> jsstring" where
  "str s = map of_char s"

text \<open>
  \<open>Buffer.toString('hex')\<close> and \<open>Buffer.from(s, 'hex')\<close>. The latter reads pairs of
  hexadecimal digits, of either case, and stops at the first pair that is not one.
\<close>

definition hex_digit :: "nat \<Rightarrow> nat" where
  "hex_digit d = (if d < 10 then 48 + d else 87 + d)"

definition hex_value :: "nat \<Rightarrow> nat option" where
  "hex_value c =
     (if 48 \<le> c \<and> c \<le> 57 then Some (c - 48)
      else if 97 \<le> c \<and> c \<le> 102 then Some (c - 87)
      else if 65 \<le> c \<and> c \<le> 70 then Some (c - 55)
      else None)"

definition to_hex :: "bytes \<Rightarrow> jsstring" where
  "to_hex bs = concat (map (\<lambda>b. [hex_digit (unat b div 16), hex_digit (unat b mod 16)]) bs)"

fun from_hex :: "jsstring \<Rightarrow> bytes" where
  "from_hex (a # b # rest) =
     (case (hex_value a, hex_value b) of
        (Some x, Some y) \<Rightarrow> of_nat (16 * x + y) # from_hex rest
      | _ \<Rightarrow> [])"
| "from_hex _ = []"

text \<open>\<open>String.prototype.split\<close> with a separator of one code unit.\<close>

fun split :: "nat \<Rightarrow> jsstring \<Rightarrow> jsstring list" where
  "split sep [] = [[]]"
| "split sep (c # cs) =
     (if c = sep then [] # split sep cs
      else case split sep cs of
             [] \<Rightarrow> [[c]]
           | part # parts \<Rightarrow> (c # part) # parts)"

text \<open>
  \<open>toLowerCase\<close> on the code units \<open>A\<close> to \<open>Z\<close>. The code compares the result with
  \<open>"true"\<close> only, and no code unit outside \<open>A\<close> to \<open>Z\<close> has \<open>t\<close>, \<open>r\<close>, \<open>u\<close> or \<open>e\<close> as
  its lower case, so the other code units are left as they are.
\<close>

definition toLowerCase :: "jsstring \<Rightarrow> jsstring" where
  "toLowerCase s = map (\<lambda>c. if 65 \<le> c \<and> c \<le> 90 then c + 32 else c) s"

text \<open>\<open>BigInt.prototype.toString\<close>: the decimal digits, after a minus sign if negative.\<close>

fun digits :: "nat \<Rightarrow> jsstring" where
  "digits n = (if n < 10 then [48 + n] else digits (n div 10) @ [48 + n mod 10])"

declare digits.simps [simp del]

definition bigint_toString :: "int \<Rightarrow> jsstring" where
  "bigint_toString i = (if i < 0 then 45 # digits (nat (- i)) else digits (nat i))"

text \<open>
  The numbers and the objects of JavaScript are not modelled: they are two types about
  which nothing is assumed, converted to and from strings by the runtime (see
  \<open>platform\<close> below). An array is an object for which \<open>Array.isArray\<close> holds.
\<close>

typedecl js_number

typedecl js_object

datatype jsval =
    VString jsstring
  | VNumber js_number
  | VBoolean bool
  | VBigInt int
  | VObject js_object
  | VArray js_object
  | VFunction
  | VUndefined
  | VSymbol

text \<open>\<open>Array.isArray(value) ? "array" : typeof value\<close>.\<close>

fun typeOf :: "jsval \<Rightarrow> jsstring" where
  "typeOf (VString s) = str ''string''"
| "typeOf (VNumber n) = str ''number''"
| "typeOf (VBoolean b) = str ''boolean''"
| "typeOf (VBigInt i) = str ''bigint''"
| "typeOf (VObject ob) = str ''object''"
| "typeOf (VArray a) = str ''array''"
| "typeOf VFunction = str ''function''"
| "typeOf VUndefined = str ''undefined''"
| "typeOf VSymbol = str ''symbol''"

text \<open>
  What the code takes from outside the repository: the environment variable
  \<open>CACHE_HASH_KEY_INITALIZER\<close> as \<open>parseInt\<close> reads it (\<open>None\<close> is \<open>NaN\<close>), the
  built-in conversions of numbers and of objects (\<open>JSON.stringify\<close> throws, \<open>Inl\<close>,
  for a circular structure or a bigint inside, and otherwise returns a string or, for an
  object whose \<open>toJSON\<close> gives nothing to write, \<open>undefined\<close>, which is \<open>Inr None\<close>;
  for \<open>JSON.parse\<close> \<open>None\<close> is its \<open>SyntaxError\<close>),
  \<open>BigInt(string)\<close> (\<open>None\<close> is its \<open>SyntaxError\<close>), and \<open>node:crypto\<close>: the SHA-256 digest in hexadecimal, the cipher
  \<open>aes-256-cbc\<close> from a key, an initialisation vector and a UTF-8 text to the bytes of
  the ciphertext and back (\<open>None\<close> is any error of deciphering), and \<open>randomBytes\<close>,
  whose results are numbered by the calls made so far.
\<close>

record platform =
  CACHE_HASH_KEY_INITALIZER :: "int option"
  number_toString :: "js_number \<Rightarrow> jsstring"
  Number :: "jsstring \<Rightarrow> js_number"
  BigInt :: "jsstring \<Rightarrow> int option"
  JSON_stringify :: "js_object \<Rightarrow> error + jsstring option"
  JSON_parse :: "jsstring \<Rightarrow> jsval option"
  sha256 :: "jsstring \<Rightarrow> jsstring"
  cipher :: "bytes \<Rightarrow> bytes \<Rightarrow> jsstring \<Rightarrow> bytes"
  decipher :: "bytes \<Rightarrow> bytes \<Rightarrow> bytes \<Rightarrow> jsstring option"
  randomBytes :: "nat \<Rightarrow> nat \<Rightarrow> bytes"

section \<open>The cache (class \<open>Cache\<close>) and its obfuscator (class \<open>Obfuscator\<close>)\<close>

subsection \<open>Hashed keys and checksums\<close>

text \<open>The code units that the regular expression \<open>\s\<close> matches.\<close>

definition is_whitespace :: "nat \<Rightarrow> bool" where
  "is_whitespace c \<longleftrightarrow>
     c \<in> {9, 10, 11, 12, 13, 32, 160, 5760, 8232, 8233, 8239, 8287, 12288, 65279} \<or>
     (8192 \<le> c \<and> c \<le> 8202)"

text \<open>
  \<open>hash << 5\<close> takes the number to a signed 32-bit integer and shifts it; the two
  additions that follow are on numbers. A number is modelled as an integer, which is exact
  for a double as long as it stays below \<open>2^53\<close> in absolute value.
\<close>

definition shift_left_5 :: "int \<Rightarrow> int" where
  "shift_left_5 h = sint (push_bit 5 (word_of_int h :: 32 word))"

definition createHashKey :: "platform \<Rightarrow> jsstring \<Rightarrow> error + int" where
  "createHashKey P key =
     (let key' = filter (\<lambda>c. \<not> is_whitespace c) key
      in case CACHE_HASH_KEY_INITALIZER P of
           None \<Rightarrow> Inl HashKeyNotSet
         | Some hash \<Rightarrow>
             if hash = 0 then Inl HashKeyNotSet
             else Inr (foldl (\<lambda>hash c. shift_left_5 hash + hash + int c) hash key'))"

definition createCheckSum :: "platform \<Rightarrow> jsstring \<Rightarrow> jsstring" where
  "createCheckSum P key = sha256 P key"

subsection \<open>Entries, timers and the state of a cache\<close>

text \<open>
  The third argument of \<open>write\<close>: the string \<open>"never"\<close>, \<open>null\<close>, or a \<open>Duration\<close>, of
  which the code reads \<open>toMilliseconds\<close> only. The class \<open>Duration\<close> is not among the
  sources; a duration is its number of milliseconds.
\<close>

datatype expiration = Never | Null | Duration nat

text \<open>
  An entry object of the map. Its field \<open>value\<close> is \<open>val\<close> here and its field \<open>type\<close> is
  \<open>vtype\<close>; \<open>isObfusacated\<close> is spelt as in the source.
\<close>

record entry =
  val :: jsval
  expiresOn :: expiration
  isObfusacated :: bool
  vtype :: jsstring
  checksum :: jsstring

text \<open>
  The continuations that wait in the microtask queue of the event loop: the rest of
  \<open>read\<close> and of \<open>write\<close> after \<open>await this.#pauseUntilOperationsResumed()\<close>, the rest of
  \<open>execute\<close> after an \<open>await\<close>, the rest of \<open>emitter\<close> after \<open>await callback()\<close>, and the
  next test of the loop of \<open>#pauseUntilOperationsResumed\<close>.
\<close>

datatype task =
    ReadResume jsstring
  | WriteResume jsstring int jsval expiration bool jsstring
  | DrainResume
  | EmitResume event
  | PauseRecheck task

text \<open>
  The callbacks given to \<open>setUnboundedTimeout\<close> (the one of \<open>#rotator\<close> and the one of
  \<open>#runCacheCleanup\<close>, with the key and the expiration it closes over), and what a pending
  timer of \<open>setTimeout\<close> will run: such a callback, the next link of the chain that
  \<open>setUnboundedTimeout\<close> builds for a long delay, or the \<open>resolve\<close> of the pause gate.
\<close>

datatype timeout_callback = rotateKey_callback | cleanup_callback int expiration

datatype timer_task =
    Callback timeout_callback
  | Chain timeout_callback nat
  | PausePoll task

text \<open>
  What a variable that holds a timer can hold: the \<open>Timeout\<close> object that \<open>setTimeout\<close>
  returns, or the function that \<open>setUnboundedTimeout\<close> returns, which would clear the
  timer of the given identifier if it were called.
\<close>

datatype timer_handle = Timeout nat | clear_function nat

text \<open>
  The state that the synchronous code of the cache works on: the entry objects by address
  (\<open>heap\<close>), the maps \<open>#data\<close> and \<open>#temp\<close> from hashed keys to the addresses of entry
  objects in insertion order, the fields of the obfuscator, the pending timers
  \<open>(identifier, delay, task)\<close> of the runtime, and the number of calls of
  \<open>randomBytes\<close> so far.
\<close>

record cache = runtime +
  heap :: "entry list"
  data :: "(int \<times> nat) list"
  temp :: "(int \<times> nat) list option"
  isPaused :: bool
  fideliusCharm :: "bytes option"
  defaultKeyRotationDuration :: nat
  existingRotatorTimerObject :: "timer_handle option"
  timers :: "(nat \<times> nat \<times> timer_task) list"
  timer_count :: nat
  random_count :: nat

subsection \<open>Timers\<close>

definition setTimeout :: "timer_task \<Rightarrow> nat \<Rightarrow> cache \<Rightarrow> nat \<times> cache" where
  "setTimeout t delay w =
     (timer_count w,
      w\<lparr> timers := timers w @ [(timer_count w, delay, t)], timer_count := timer_count w + 1 \<rparr>)"

text \<open>
  \<open>clearTimeout\<close> of the runtime cancels the timer of a \<open>Timeout\<close> object; given
  anything else that is not a timer identifier, a function included, it does nothing.
\<close>

definition clearTimeout :: "timer_handle \<Rightarrow> cache \<Rightarrow> cache" where
  "clearTimeout h w =
     (case h of
        Timeout i \<Rightarrow> w\<lparr> timers := filter (\<lambda>t. fst t \<noteq> i) (timers w) \<rparr>
      | clear_function i \<Rightarrow> w)"

definition maxDelay :: nat where
  "maxDelay = 2147483647"

definition maxTotalDelay :: nat where
  "maxTotalDelay = 1000000000000"

definition setUnboundedTimeout ::
  "timeout_callback \<Rightarrow> nat \<Rightarrow> cache \<Rightarrow> (error + timer_handle) \<times> cache" where
  "setUnboundedTimeout cb delay w =
     (if delay > maxTotalDelay then (Inl DelayTooLong, w)
      else if delay > maxDelay then
        (let (timeoutId, w') = setTimeout (Chain cb (delay - maxDelay)) maxDelay w
         in (Inr (clear_function timeoutId), w'))
      else
        (let (timeoutId, w') = setTimeout (Callback cb) delay w
         in (Inr (clear_function timeoutId), w')))"

subsection \<open>The obfuscator: encoding and decoding\<close>

text \<open>
  \<open>converttostring\<close> returns the string value and the type. It throws when
  \<open>JSON.stringify\<close> does, and its string value is \<open>undefined\<close> when that of
  \<open>JSON.stringify\<close> is; in the default case the string value is the value itself.
\<close>

definition stringified :: "platform \<Rightarrow> js_object \<Rightarrow> jsstring \<Rightarrow> error + jsval \<times> jsstring" where
  "stringified P ob type =
     (case JSON_stringify P ob of
        Inl e \<Rightarrow> Inl e
      | Inr None \<Rightarrow> Inr (VUndefined, type)
      | Inr (Some s) \<Rightarrow> Inr (VString s, type))"

definition converttostring :: "platform \<Rightarrow> jsval \<Rightarrow> error + jsval \<times> jsstring" where
  "converttostring P v =
     (case v of
        VNumber n \<Rightarrow> Inr (VString (number_toString P n), typeOf v)
      | VBoolean b \<Rightarrow> Inr (VString (if b then str ''true'' else str ''false''), typeOf v)
      | VBigInt i \<Rightarrow> Inr (VString (bigint_toString i), typeOf v)
      | VObject ob \<Rightarrow> stringified P ob (typeOf v)
      | VArray a \<Rightarrow> stringified P a (typeOf v)
      | _ \<Rightarrow> Inr (v, typeOf v))"

text \<open>
  \<open>toType\<close>. The case \<open>"bigint"\<close> of the \<open>switch\<close> has no \<open>break\<close>: after
  \<open>BigInt(string)\<close>, which may throw, control falls into the case \<open>"boolean"\<close>, whose
  assignment replaces the result.
\<close>

definition toType :: "platform \<Rightarrow> jsstring \<Rightarrow> jsstring \<Rightarrow> error + jsval" where
  "toType P string type =
     (if type = str ''number'' then Inr (VNumber (Number P string))
      else if type = str ''bigint'' then
        (case BigInt P string of
           None \<Rightarrow> Inl SyntaxError
         | Some i \<Rightarrow> Inr (VBoolean (toLowerCase string = str ''true'')))
      else if type = str ''boolean'' then Inr (VBoolean (toLowerCase string = str ''true''))
      else if type = str ''object'' \<or> type = str ''array'' then
        (case JSON_parse P string of
           None \<Rightarrow> Inl SyntaxError
         | Some v \<Rightarrow> Inr v)
      else Inr (VString string))"

text \<open>
  \<open>encode\<close> runs its work as the callback of \<open>emitter\<close>, inside the \<open>try\<close> of
  \<open>emitter\<close>: when \<open>converttostring\<close> throws, or \<open>createCipheriv\<close> (no key) or
  \<open>cipher.update\<close> (a string value that is not a string) throws after the vector has
  been drawn, the error is printed and \<open>encode\<close> returns \<open>undefined\<close>. The cache
  registers no handler and no listener for the event \<open>obfuscated\<close>, so the rest of
  \<open>emitter\<close> after its \<open>await\<close> has nothing to run and is left out.
\<close>

definition encode :: "platform \<Rightarrow> jsval \<Rightarrow> cache \<Rightarrow> jsval \<times> cache" where
  "encode P v w =
     (case converttostring P v of
        Inl e \<Rightarrow>
          (VUndefined, w\<lparr> console := console w @ [OBFUSCATOR_ERROR_callback obfuscated e] \<rparr>)
      | Inr (stringValue, type) \<Rightarrow>
          (let iv = randomBytes P (random_count w) 16;
               w1 = w\<lparr> random_count := random_count w + 1 \<rparr>
           in case (fideliusCharm w, stringValue) of
                (Some key, VString s) \<Rightarrow>
                  (VString (to_hex iv @ [58] @ to_hex (cipher P key iv s) @ [58] @ type), w1)
              | _ \<Rightarrow>
                  (VUndefined,
                   w1\<lparr> console := console w1 @
                                  [OBFUSCATOR_ERROR_callback obfuscated TypeError] \<rparr>)))"

text \<open>
  \<open>decode\<close>. A value that is not a string has no method \<open>split\<close>, and a missing key
  makes \<open>createDecipheriv\<close> throw: both are a \<open>TypeError\<close>.
\<close>

definition decode :: "platform \<Rightarrow> jsval \<Rightarrow> cache \<Rightarrow> error + jsval" where
  "decode P string w =
     (case string of
        VString s \<Rightarrow>
          (let parts = split 58 s
           in if length parts \<noteq> 3 then Inl InvalidString
              else
                let iv = from_hex (parts ! 0);
                    encryptedText = from_hex (parts ! 1);
                    type = parts ! 2
                in case fideliusCharm w of
                     None \<Rightarrow> Inl TypeError
                   | Some key \<Rightarrow>
                       (case decipher P key iv encryptedText of
                          None \<Rightarrow> Inl DecipherError
                        | Some decrypted \<Rightarrow> toType P decrypted type))
      | _ \<Rightarrow> Inl TypeError)"

subsection \<open>The synchronous methods of the cache\<close>

definition validateKeyCheckSum :: "int \<Rightarrow> jsstring \<Rightarrow> cache \<Rightarrow> bool" where
  "validateKeyCheckSum key current_checksum w =
     (case map_of (data w) key of
        None \<Rightarrow> True
      | Some a \<Rightarrow> checksum (heap w ! a) = current_checksum)"

definition has :: "platform \<Rightarrow> jsstring \<Rightarrow> cache \<Rightarrow> error + bool" where
  "has P key w =
     (case createHashKey P key of
        Inl e \<Rightarrow> Inl e
      | Inr h \<Rightarrow> Inr (map_of (data w) h \<noteq> None))"

text \<open>The method \<open>delete\<close>.\<close>

definition delete_key :: "platform \<Rightarrow> jsstring \<Rightarrow> cache \<Rightarrow> (error + bool) \<times> cache" where
  "delete_key P key w =
     (case createHashKey P key of
        Inl e \<Rightarrow> (Inl e, w)
      | Inr h \<Rightarrow> (Inr (map_of (data w) h \<noteq> None), w\<lparr> data := AList.delete h (data w) \<rparr>))"

definition destroy :: "cache \<Rightarrow> cache" where
  "destroy w = (w\<lparr> isPaused := True \<rparr>)\<lparr> data := [] \<rparr>\<lparr> isPaused := False \<rparr>"

text \<open>
  \<open>#runCacheCleanup\<close>. \<open>write\<close> calls it for an expiration other than \<open>"never"\<close>; the
  string \<open>"never"\<close> would pass the test \<open>if (expiration)\<close> and set a timer with the delay
  \<open>undefined\<close>, which the runtime takes as one millisecond.
\<close>

definition runCacheCleanup :: "int \<Rightarrow> expiration \<Rightarrow> cache \<Rightarrow> (error + unit) \<times> cache" where
  "runCacheCleanup key expiration w =
     (case expiration of
        Null \<Rightarrow> (Inr (), w)
      | Duration ms \<Rightarrow>
          (case setUnboundedTimeout (cleanup_callback key expiration) ms w of
             (Inl e, w') \<Rightarrow> (Inl e, w')
           | (Inr timer, w') \<Rightarrow> (Inr (), w'))
      | Never \<Rightarrow>
          (case setTimeout (Callback (cleanup_callback key expiration)) 1 w of
             (timer, w') \<Rightarrow> (Inr (), w')))"

text \<open>
  The function that \<open>write\<close> puts on the write queue, with the variables it closes over as
  arguments. \<open>this.#data.set\<close> stores a new entry object.
\<close>

definition write_job ::
  "platform \<Rightarrow> jsstring \<Rightarrow> int \<Rightarrow> jsval \<Rightarrow> expiration \<Rightarrow> bool \<Rightarrow> jsstring \<Rightarrow>
   cache \<Rightarrow> (error + unit) \<times> cache" where
  "write_job P key hKey value' expiration obfuscate typeOfValue w =
     (let keyCheckSum = createCheckSum P key
      in if validateKeyCheckSum hKey keyCheckSum w then
           (let w1 = w\<lparr> heap := heap w @ [\<lparr> val = value', expiresOn = expiration,
                                            isObfusacated = obfuscate, vtype = typeOfValue,
                                            checksum = keyCheckSum \<rparr>],
                         data := AList.update hKey (length (heap w)) (data w) \<rparr>
            in if expiration \<noteq> Never then runCacheCleanup hKey expiration w1
               else (Inr (), w1))
         else
           (case delete_key P key (w\<lparr> console := console w @ [WARNING_key_collision] \<rparr>) of
              (Inl e, w') \<Rightarrow> (Inl e, w')
            | (Inr removed, w') \<Rightarrow> (Inr (), w')))"

text \<open>
  \<open>#handleBeforeKeyRotated\<close>: \<open>new Map(this.#data)\<close> copies the map, not the entry
  objects, so \<open>#temp\<close> and \<open>#data\<close> hold the same objects, and the loop writes the decoded
  value into each of them. An error of \<open>decode\<close> ends the loop and leaves the handler.
\<close>

fun decode_each :: "platform \<Rightarrow> (int \<times> nat) list \<Rightarrow> cache \<Rightarrow> (error + unit) \<times> cache" where
  "decode_each P [] w = (Inr (), w)"
| "decode_each P ((key, a) # rest) w =
     (case decode P (val (heap w ! a)) w of
        Inl e \<Rightarrow> (Inl e, w)
      | Inr v \<Rightarrow> decode_each P rest (w\<lparr> heap := (heap w)[a := (heap w ! a)\<lparr> val := v \<rparr>] \<rparr>))"

definition handleBeforeKeyRotated :: "platform \<Rightarrow> cache \<Rightarrow> (error + unit) \<times> cache" where
  "handleBeforeKeyRotated P w = decode_each P (data w) (w\<lparr> temp := Some (data w) \<rparr>)"

text \<open>
  \<open>#handleKeyRotated\<close>. Before the first rotation \<open>#temp\<close> is \<open>undefined\<close>, and
  \<open>this.#temp.forEach\<close> would throw a \<open>TypeError\<close>.
\<close>

fun encode_each :: "platform \<Rightarrow> (int \<times> nat) list \<Rightarrow> cache \<Rightarrow> cache" where
  "encode_each P [] w = w"
| "encode_each P ((key, a) # rest) w =
     (case encode P (val (heap w ! a)) w of
        (v, w') \<Rightarrow> encode_each P rest (w'\<lparr> heap := (heap w')[a := (heap w' ! a)\<lparr> val := v \<rparr>] \<rparr>))"

definition handleKeyRotated :: "platform \<Rightarrow> cache \<Rightarrow> (error + unit) \<times> cache" where
  "handleKeyRotated P w =
     (let w1 = destroy (w\<lparr> isPaused := True \<rparr>)
      in case temp w1 of
           None \<Rightarrow> (Inl TypeError, w1)
         | Some t \<Rightarrow>
             (let w2 = encode_each P t w1
              in (Inr (), w2\<lparr> data := t, isPaused := False, temp := Some [] \<rparr>)))"

subsection \<open>The rotation timer\<close>

text \<open>
  Modelled from the spec: the class \<open>Duration\<close> is not among the sources.
  \<open>Duration.days(n).toMilliseconds\<close> is the number of milliseconds in \<open>n\<close> days; the
  constructor of \<open>Obfuscator\<close> takes \<open>Duration.days(90)\<close>, the default rotation period
  of the spec.
\<close>

definition Duration_days :: "nat \<Rightarrow> nat" where
  "Duration_days n = n * 24 * 60 * 60 * 1000"

definition rotator :: "platform \<Rightarrow> cache \<Rightarrow> (error + unit) \<times> cache" where
  "rotator P w =
     (let duration = defaultKeyRotationDuration w;
          w1 = (case fideliusCharm w of
                  None \<Rightarrow> w\<lparr> fideliusCharm := Some (randomBytes P (random_count w) 32),
                              random_count := random_count w + 1 \<rparr>
                | Some k \<Rightarrow> w)
      in case setUnboundedTimeout rotateKey_callback duration w1 of
           (Inl e, w2) \<Rightarrow> (Inl e, w2)
         | (Inr h, w2) \<Rightarrow> (Inr (), w2\<lparr> existingRotatorTimerObject := Some h \<rparr>))"

text \<open>
  The setter of \<open>defaultKeyRotationDuration\<close>. Its work is the callback of \<open>emitter\<close>,
  inside the \<open>try\<close> of \<open>emitter\<close>; no handler or listener is registered for the event
  \<open>rotation_duration_changed\<close>.
\<close>

definition set_defaultKeyRotationDuration :: "platform \<Rightarrow> nat \<Rightarrow> cache \<Rightarrow> cache" where
  "set_defaultKeyRotationDuration P duration w =
     (let w1 = w\<lparr> defaultKeyRotationDuration := duration \<rparr>;
          w2 = (case existingRotatorTimerObject w1 of
                  Some h \<Rightarrow> clearTimeout h w1
                | None \<Rightarrow> w1)
      in case rotator P w2 of
           (Inl e, w3) \<Rightarrow>
             w3\<lparr> console := console w3 @ [OBFUSCATOR_ERROR_callback rotation_duration_changed e] \<rparr>
         | (Inr u, w3) \<Rightarrow> w3)"

text \<open>
  The constructors of \<open>Obfuscator\<close> and \<open>Cache\<close>, in a runtime with an empty console and no
  timers. The handlers that the constructor of \<open>Cache\<close> registers for \<open>key_rotated\<close> are
  the only ones: \<open>rotateKey\<close> below calls them directly.
\<close>

definition Cache :: "platform \<Rightarrow> cache" where
  "Cache P =
     snd (rotator P
       \<lparr> console = [], heap = [], data = [], temp = None, isPaused = False,
         fideliusCharm = None, defaultKeyRotationDuration = Duration_days 90,
         existingRotatorTimerObject = None, timers = [], timer_count = 0,
         random_count = 0 \<rparr>)"

section \<open>The asynchronous methods and the event loop\<close>

text \<open>
  A cache together with its write queue (capacity 5000) and the microtask queue of the
  event loop. The functions on the write queue work on the state of the cache. The
  microtask queue is first in, first out: an \<open>await\<close> of a value that is not a pending
  promise appends the rest of the function to it at once.
\<close>

record system =
  state :: cache
  writeQueue :: "(unit cache_ext, unit) process_queue"
  microtasks :: "task list"

definition new_system :: "platform \<Rightarrow> system" where
  "new_system P = \<lparr> state = Cache P, writeQueue = ProcessQueue 5000, microtasks = [] \<rparr>"

text \<open>What a microtask settles: the promise of a \<open>read\<close> (\<open>None\<close> is \<open>null\<close>), of a
  \<open>write\<close>, or, with an error, of \<open>emitter\<close>.\<close>

datatype outcome =
    NoOutcome
  | ReadSettled "error + jsval option"
  | WriteSettled "error + unit"
  | EmitRejected error

text \<open>
  \<open>await this.#pauseUntilOperationsResumed()\<close> with the rest of the caller as \<open>cont\<close>.
  While the flag is set the loop waits on a timer of \<open>#pauseCheckInterval\<close>
  milliseconds; otherwise the caller goes on in a microtask.
\<close>

definition pauseCheckInterval :: nat where
  "pauseCheckInterval = 10"

definition pauseUntilOperationsResumed :: "task \<Rightarrow> system \<Rightarrow> system" where
  "pauseUntilOperationsResumed cont s =
     (if isPaused (state s)
      then s\<lparr> state := snd (setTimeout (PausePoll cont) pauseCheckInterval (state s)) \<rparr>
      else s\<lparr> microtasks := microtasks s @ [cont] \<rparr>)"

text \<open>\<open>read\<close>: up to its \<open>await\<close>, and the rest.\<close>

definition read_call :: "jsstring \<Rightarrow> system \<Rightarrow> system" where
  "read_call key s = pauseUntilOperationsResumed (ReadResume key) s"

definition read_resume :: "platform \<Rightarrow> jsstring \<Rightarrow> cache \<Rightarrow> error + jsval option" where
  "read_resume P key w =
     (case createHashKey P key of
        Inl e \<Rightarrow> Inl e
      | Inr h \<Rightarrow>
          (case map_of (data w) h of
             None \<Rightarrow> Inr None
           | Some a \<Rightarrow>
               (let cacheItem = heap w ! a
                in if isObfusacated cacheItem then
                     (case decode P (val cacheItem) w of
                        Inl e \<Rightarrow> Inl e
                      | Inr v \<Rightarrow> Inr (Some v))
                   else Inr (Some (val cacheItem)))))"

text \<open>
  \<open>write\<close>: up to its \<open>await\<close>, where an error (\<open>Some\<close>) rejects the promise at once,
  and the rest. \<open>encode\<close> does not throw (it returns \<open>undefined\<close> instead), so the
  \<open>catch\<close> around it is never entered.
  A call of \<open>execute\<close> that starts in \<open>enqueue\<close> and reaches an \<open>await\<close> leaves its rest
  in the microtask queue.
\<close>

definition write_call ::
  "platform \<Rightarrow> jsstring \<Rightarrow> jsval \<Rightarrow> expiration \<Rightarrow> bool \<Rightarrow> system \<Rightarrow> error option \<times> system" where
  "write_call P key v expiration obfuscate s =
     (let typeOfValue = typeOf v
      in case createHashKey P key of
           Inl e \<Rightarrow> (Some e, s)
         | Inr hKey \<Rightarrow>
             if typeOfValue = str ''function'' \<or> typeOfValue = str ''undefined'' \<or>
                typeOfValue = str ''symbol''
             then (Some NON_CACHABLE_VALUE, s)
             else (None,
                   pauseUntilOperationsResumed
                     (WriteResume key hKey v expiration obfuscate typeOfValue) s))"

definition write_resume ::
  "platform \<Rightarrow> jsstring \<Rightarrow> int \<Rightarrow> jsval \<Rightarrow> expiration \<Rightarrow> bool \<Rightarrow> jsstring \<Rightarrow> system \<Rightarrow>
   (error + unit) \<times> system" where
  "write_resume P key hKey v expiration obfuscate typeOfValue s =
     (case (if obfuscate then encode P v (state s) else (v, state s)) of
        (value', w1) \<Rightarrow>
          (case pq_enqueue (write_job P key hKey value' expiration obfuscate typeOfValue) None
                  (writeQueue s, w1) of
             Inl e \<Rightarrow> (Inl e, s\<lparr> state := w1 \<rparr>)
           | Inr (pq, w2) \<Rightarrow>
               (Inr (),
                s\<lparr> state := w2, writeQueue := pq,
                   microtasks := microtasks s @
                     (if \<not> isExecuting (writeQueue s) \<and> suspended (frame pq)
                      then [DrainResume] else []) \<rparr>)))"

text \<open>The rest of \<open>execute\<close> after an \<open>await\<close>; a further \<open>await\<close> queues it again.\<close>

definition drain_resume :: "system \<Rightarrow> system" where
  "drain_resume s =
     (case execute_resume (writeQueue s, state s) of
        (pq, w) \<Rightarrow>
          s\<lparr> state := w, writeQueue := pq,
             microtasks := microtasks s @ (if suspended (frame pq) then [DrainResume] else []) \<rparr>)"

text \<open>
  \<open>rotateKey\<close>, that is \<open>emitter\<close> for \<open>key_rotated\<close> up to \<open>await callback()\<close>: the
  handler registered with \<open>before\<close>, inside a \<open>try\<close>, then the callback, which draws the
  new key. The rest of \<open>emitter\<close> calls the listener registered with \<open>on\<close>; an error of
  the listener rejects the promise of \<open>emitter\<close>.
\<close>

definition rotateKey :: "platform \<Rightarrow> system \<Rightarrow> system" where
  "rotateKey P s =
     (let w1 = (case handleBeforeKeyRotated P (state s) of
                  (Inl e, w') \<Rightarrow>
                    w'\<lparr> console := console w' @ [OBFUSCATOR_ERROR_before key_rotated e] \<rparr>
                | (Inr u, w') \<Rightarrow> w');
          w2 = w1\<lparr> fideliusCharm := Some (randomBytes P (random_count w1) 32),
                    random_count := random_count w1 + 1 \<rparr>
      in s\<lparr> state := w2, microtasks := microtasks s @ [EmitResume key_rotated] \<rparr>)"

definition emit_resume :: "platform \<Rightarrow> event \<Rightarrow> system \<Rightarrow> outcome \<times> system" where
  "emit_resume P ev s =
     (case ev of
        key_rotated \<Rightarrow>
          (case handleKeyRotated P (state s) of
             (Inl e, w') \<Rightarrow> (EmitRejected e, s\<lparr> state := w' \<rparr>)
           | (Inr u, w') \<Rightarrow> (NoOutcome, s\<lparr> state := w' \<rparr>))
      | _ \<Rightarrow> (NoOutcome, s))"

text \<open>The event loop takes the first microtask and runs it to its end.\<close>

definition run_task :: "platform \<Rightarrow> task \<Rightarrow> system \<Rightarrow> outcome \<times> system" where
  "run_task P t s =
     (case t of
        ReadResume key \<Rightarrow> (ReadSettled (read_resume P key (state s)), s)
      | WriteResume key hKey v expiration obfuscate typeOfValue \<Rightarrow>
          (case write_resume P key hKey v expiration obfuscate typeOfValue s of
             (r, s') \<Rightarrow> (WriteSettled r, s'))
      | DrainResume \<Rightarrow> (NoOutcome, drain_resume s)
      | EmitResume ev \<Rightarrow> emit_resume P ev s
      | PauseRecheck cont \<Rightarrow> (NoOutcome, pauseUntilOperationsResumed cont s))"

text \<open>
  Running microtasks until the queue is empty, at most \<open>n\<close> of them; the outcomes are
  listed in order.
\<close>

fun run_microtasks :: "platform \<Rightarrow> nat \<Rightarrow> system \<Rightarrow> outcome list \<times> system" where
  "run_microtasks P 0 s = ([], s)"
| "run_microtasks P (Suc n) s =
     (case microtasks s of
        [] \<Rightarrow> ([], s)
      | t # ts \<Rightarrow>
          (case run_task P t (s\<lparr> microtasks := ts \<rparr>) of
             (out, s') \<Rightarrow>
               (case run_microtasks P n s' of
                  (outs, s'') \<Rightarrow> (out # outs, s''))))"

text \<open>
  The event loop fires the pending timer \<open>i\<close>: the timer leaves the table and its task
  runs. The function that the cleanup callback passes to \<open>clearTimeout\<close> is the one that
  \<open>setUnboundedTimeout\<close> returned.
\<close>

definition fire_timer :: "platform \<Rightarrow> nat \<Rightarrow> system \<Rightarrow> system" where
  "fire_timer P i s =
     (case find (\<lambda>t. fst t = i) (timers (state s)) of
        None \<Rightarrow> s
      | Some (i', delay, t) \<Rightarrow>
          (let w1 = (state s)\<lparr> timers := filter (\<lambda>t. fst t \<noteq> i) (timers (state s)) \<rparr>;
               s1 = s\<lparr> state := w1 \<rparr>
           in case t of
                Chain cb remaining \<Rightarrow> s1\<lparr> state := snd (setUnboundedTimeout cb remaining w1) \<rparr>
              | Callback rotateKey_callback \<Rightarrow> rotateKey P s1
              | Callback (cleanup_callback key expiration) \<Rightarrow>
                  s1\<lparr> state :=
                        (let w2 = w1\<lparr> data := AList.delete key (data w1) \<rparr>;
                             w3 = clearTimeout (clear_function i) w2
                         in w3\<lparr> console := console w3 @
                                  [INFO_expired key (case expiration of Duration ms \<Rightarrow> ms | _ \<Rightarrow> 0)] \<rparr>) \<rparr>
              | PausePoll cont \<Rightarrow> s1\<lparr> microtasks := microtasks s1 @ [PauseRecheck cont] \<rparr>))"

text \<open>
  A system at rest: no microtask is waiting, the pause flag is clear, and the write queue
  is empty with no call of \<open>execute\<close> under way.
\<close>

definition idle_queue :: "('z, 'r) process_queue \<Rightarrow> bool" where
  "idle_queue pq \<longleftrightarrow>
     queue_inv pq \<and> qsize pq = 0 \<and> 0 < capacity pq \<and> \<not> isExecuting pq \<and>
     \<not> suspended (frame pq)"

definition idle :: "system \<Rightarrow> bool" where
  "idle s \<longleftrightarrow> microtasks s = [] \<and> \<not> isPaused (state s) \<and> idle_queue (writeQueue s)"

text \<open>The values that \<open>write\<close> accepts.\<close>

definition cachable :: "jsval \<Rightarrow> bool" where
  "cachable v \<longleftrightarrow>
     typeOf v \<noteq> str ''function'' \<and> typeOf v \<noteq> str ''undefined'' \<and> typeOf v \<noteq> str ''symbol''"

text \<open>
  A stand-in for the runtime, for running the model on examples: the seed 5381, the key
  itself as its digest, and a cipher that writes each code unit of the text as one byte.
  The conversions of numbers and objects, which the examples do not use, return fixed
  values.
\<close>

definition example_platform :: platform where
  "example_platform =
     \<lparr> CACHE_HASH_KEY_INITALIZER = Some 5381,
       number_toString = (\<lambda>n. str ''0''),
       Number = (\<lambda>s. undefined),
       BigInt = (\<lambda>s. Some 0),
       JSON_stringify = (\<lambda>ob. Inr (Some (str ''{}''))),
       JSON_parse = (\<lambda>s. None),
       sha256 = (\<lambda>key. key),
       cipher = (\<lambda>key iv text. map of_nat text),
       decipher = (\<lambda>key iv bs. Some (map unat bs)),
       randomBytes = (\<lambda>n len. replicate len (of_nat n)) \<rparr>"

section \<open>Properties of the bounded FIFO queue\<close>


lemma js_rem_nonneg: "0 \<le> a \<Longrightarrow> 0 < b \<Longrightarrow> js_rem a b = a mod b"
  by (cases "a = 0") (simp_all add: js_rem_def)

lemma mod_shift_neq:
  fixes f c :: int
  assumes "0 \<le> i" "i < j" "j < i + c"
  shows "(f + i) mod c \<noteq> (f + j) mod c"
proof
  assume "(f + i) mod c = (f + j) mod c"
  then have "c dvd ((f + j) - (f + i))"
    by (metis mod_eq_dvd_iff)
  then have "c dvd (j - i)" by simp
  moreover have "0 < j - i" "j - i < c" using assms by auto
  ultimately show False
    using zdvd_not_zless by blast
qed

lemma queue_inv_Queue: "queue_inv (Queue c)"
  by (auto simp: queue_inv_def Queue_def)

lemma contents_Queue: "contents (Queue c) = []"
  by (simp add: contents_def Queue_def)

lemma enqueue_full_iff: "enqueue x q = Inl QueueFull \<longleftrightarrow> qsize q = capacity q"
  by (simp add: enqueue_def isFull_def Let_def)

lemma enqueue_ok:
  assumes inv: "queue_inv q" and nf: "qsize q \<noteq> capacity q"
  shows "\<exists>q'. enqueue x q = Inr q' \<and> qsize q' = qsize q + 1 \<and> capacity q' = capacity q \<and>
           contents q' = contents q @ [Some x] \<and> queue_inv q'"
proof -
  let ?c = "capacity q"
  let ?r = "(rear q + 1) mod ?c"
  from inv nf have c: "0 < ?c" and len: "int (length (items q)) = ?c"
    and sz: "0 \<le> qsize q" "qsize q < ?c"
    and fr: "0 \<le> front q" "front q < ?c" and rr: "0 \<le> rear q" "rear q < ?c"
    and rel: "?r = (front q + qsize q) mod ?c"
    by (auto simp: queue_inv_def split: if_splits)
  have r: "js_rem (rear q + 1) ?c = ?r" using rr c by (simp add: js_rem_nonneg)
  have rb: "0 \<le> ?r" "?r < ?c" using c by simp_all
  let ?q' = "q\<lparr> rear := ?r, items := (items q)[nat ?r := Some x], qsize := qsize q + 1 \<rparr>"
  have e: "enqueue x q = Inr ?q'" using nf by (simp add: enqueue_def isFull_def Let_def r)
  have old: "((items q)[nat ?r := Some x]) ! nat ((front q + int i) mod ?c)
             = items q ! nat ((front q + int i) mod ?c)" if "i < nat (qsize q)" for i
  proof -
    have "(front q + int i) mod ?c \<noteq> (front q + qsize q) mod ?c"
      using that sz by (intro mod_shift_neq) auto
    moreover have "0 \<le> (front q + int i) mod ?c" using c by simp
    moreover have "0 \<le> (front q + qsize q) mod ?c" using c by simp
    ultimately have "nat ((front q + int i) mod ?c) \<noteq> nat ?r"
      unfolding rel by (simp only: eq_nat_nat_iff) simp
    then show ?thesis by simp
  qed
  have new: "((items q)[nat ?r := Some x]) ! nat ((front q + qsize q) mod ?c) = Some x"
    using rel rb len by (auto simp: nat_less_iff)
  have nat_sz: "nat (qsize q + 1) = Suc (nat (qsize q))" using sz by simp
  have cont: "contents ?q' = contents q @ [Some x]"
    using old new sz by (simp add: contents_def nat_sz)
  have inv': "queue_inv ?q'"
    using c len sz fr rb rel by (auto simp: queue_inv_def mod_simps add.assoc)
  show ?thesis using e cont inv' by simp
qed


lemma dequeue_empty_iff: "dequeue q = Inl QueueEmpty \<longleftrightarrow> qsize q = 0"
  by (simp add: dequeue_def isEmpty_def Let_def)

lemma peek_empty_iff: "peek q = Inl QueueEmpty \<longleftrightarrow> qsize q = 0"
  by (simp add: peek_def isEmpty_def)

lemma hd_contents:
  assumes inv: "queue_inv q" and ne: "qsize q \<noteq> 0"
  shows "hd (contents q) = items q ! nat (front q)"
proof -
  from inv ne have c: "0 < capacity q" and sz: "0 < qsize q"
    and fr: "0 \<le> front q" "front q < capacity q"
    by (auto simp: queue_inv_def split: if_splits)
  from sz have "[0..<nat (qsize q)] = 0 # [1..<nat (qsize q)]"
    by (simp add: upt_conv_Cons)
  then show ?thesis using fr by (simp add: contents_def)
qed

lemma peek_ok:
  assumes "queue_inv q" and "qsize q \<noteq> 0"
  shows "peek q = Inr (hd (contents q))"
  using assms by (simp add: peek_def isEmpty_def hd_contents)

lemma dequeue_ok:
  assumes inv: "queue_inv q" and ne: "qsize q \<noteq> 0"
  shows "\<exists>q'. dequeue q = Inr (hd (contents q), q') \<and> qsize q' = qsize q - 1 \<and>
           capacity q' = capacity q \<and> contents q' = tl (contents q) \<and> queue_inv q'"
proof -
  let ?c = "capacity q"
  let ?f = "(front q + 1) mod ?c"
  from inv ne have c: "0 < ?c" and len: "int (length (items q)) = ?c"
    and sz: "0 < qsize q" "qsize q \<le> ?c"
    and fr: "0 \<le> front q" "front q < ?c" and rr: "0 \<le> rear q" "rear q < ?c"
    and rel: "(rear q + 1) mod ?c = (front q + qsize q) mod ?c"
    by (auto simp: queue_inv_def split: if_splits)
  have f: "js_rem (front q + 1) ?c = ?f" using fr c by (simp add: js_rem_nonneg)
  have fb: "0 \<le> ?f" "?f < ?c" using c by simp_all
  let ?q' = "q\<lparr> items := (items q)[nat (front q) := None], front := ?f,
                 qsize := qsize q - 1 \<rparr>"
  have d: "dequeue q = Inr (hd (contents q), ?q')"
    using ne inv by (simp add: dequeue_def isEmpty_def Let_def f hd_contents)
  have nth_eq: "contents ?q' ! i = tl (contents q) ! i" if "i < nat (qsize q - 1)" for i
  proof -
    have si: "Suc i < nat (qsize q)" using that by linarith
    have idx: "(?f + int i) mod ?c = (front q + int (Suc i)) mod ?c"
      by (simp add: mod_simps algebra_simps)
    have "(front q + 0) mod ?c \<noteq> (front q + int (Suc i)) mod ?c"
      using that sz by (intro mod_shift_neq) auto
    then have "front q \<noteq> (front q + int (Suc i)) mod ?c" using fr by simp
    moreover have "0 \<le> (front q + int (Suc i)) mod ?c" using c by simp
    ultimately have ne': "nat (front q) \<noteq> nat ((front q + int (Suc i)) mod ?c)"
      using fr by (simp only: eq_nat_nat_iff) simp
    have "contents ?q' ! i = (items q)[nat (front q) := None] ! nat ((?f + int i) mod ?c)"
      using that by (simp add: contents_def)
    also have "\<dots> = items q ! nat ((front q + int (Suc i)) mod ?c)"
      unfolding idx using ne' by simp
    also have "\<dots> = contents q ! Suc i"
      using si by (simp add: contents_def)
    also have "\<dots> = tl (contents q) ! i"
      using si by (simp add: nth_tl contents_def)
    finally show ?thesis .
  qed
  have lens: "length (contents ?q') = length (tl (contents q))"
    using sz by (simp add: contents_def nat_diff_distrib)
  have cont: "contents ?q' = tl (contents q)"
    by (rule nth_equalityI [OF lens]) (use nth_eq in \<open>simp add: contents_def\<close>)
  have "(rear q + 1) mod ?c = (?f + (qsize q - 1)) mod ?c"
    using rel by (simp add: mod_simps)
  then have inv': "queue_inv ?q'"
    using c len sz fb rr by (auto simp: queue_inv_def)
  show ?thesis using d cont inv' by simp
qed

lemma enqueue_all_ok:
  assumes "queue_inv q" and "qsize q + int (length xs) \<le> capacity q"
  shows "\<exists>q'. enqueue_all xs q = Inr q' \<and> qsize q' = qsize q + int (length xs) \<and>
           capacity q' = capacity q \<and> contents q' = contents q @ map Some xs \<and> queue_inv q'"
  using assms
proof (induction xs arbitrary: q)
  case Nil
  then show ?case by simp
next
  case (Cons x xs)
  from Cons.prems have nf: "qsize q \<noteq> capacity q" by auto
  from enqueue_ok [OF Cons.prems(1) nf, of x] obtain q1 where
    q1: "enqueue x q = Inr q1" "qsize q1 = qsize q + 1" "capacity q1 = capacity q"
        "contents q1 = contents q @ [Some x]" "queue_inv q1"
    by blast
  from Cons.prems q1 have "qsize q1 + int (length xs) \<le> capacity q1" by simp
  from Cons.IH [OF q1(5) this] q1 show ?case by auto
qed

text \<open>
  Claim C8. A queue that satisfies the invariant (every queue built by \<open>Queue c\<close> and the
  operations does) behaves as a bounded FIFO list: \<open>enqueue\<close> fails with \<open>QueueFull\<close>
  exactly when the size equals the capacity, and otherwise appends the item and adds one to
  the size; \<open>dequeue\<close> and \<open>peek\<close> fail with \<open>QueueEmpty\<close> exactly when the size is
  zero; otherwise \<open>peek\<close> returns the oldest item and \<open>dequeue\<close> returns and removes it,
  taking one from the size; and after \<open>c\<close> enqueues on a new queue of capacity \<open>c\<close> one
  more enqueue fails with \<open>QueueFull\<close>.
\<close>

theorem bounded_fifo_queue_contract:
  assumes "queue_inv q"
  shows "(enqueue x q = Inl QueueFull \<longleftrightarrow> qsize q = capacity q) \<and>
         (qsize q \<noteq> capacity q \<longrightarrow>
            (\<exists>q'. enqueue x q = Inr q' \<and> qsize q' = qsize q + 1 \<and>
                  contents q' = contents q @ [Some x] \<and> queue_inv q')) \<and>
         (dequeue q = Inl QueueEmpty \<longleftrightarrow> qsize q = 0) \<and>
         (peek q = Inl QueueEmpty \<longleftrightarrow> qsize q = 0) \<and>
         (qsize q \<noteq> 0 \<longrightarrow>
            peek q = Inr (hd (contents q)) \<and>
            (\<exists>q'. dequeue q = Inr (hd (contents q), q') \<and> qsize q' = qsize q - 1 \<and>
                  contents q' = tl (contents q) \<and> queue_inv q')) \<and>
         int (length (contents q)) = qsize q \<and>
         queue_inv (Queue c :: 'a queue) \<and> contents (Queue c :: 'a queue) = [] \<and>
         (length xs = c \<longrightarrow>
            (\<exists>q'. enqueue_all xs (Queue c :: 'a queue) = Inr q' \<and> contents q' = map Some xs \<and>
                  enqueue y q' = Inl QueueFull))"
proof -
  have full: "length xs = c \<longrightarrow>
            (\<exists>q'. enqueue_all xs (Queue c :: 'a queue) = Inr q' \<and> contents q' = map Some xs \<and>
                  enqueue y q' = Inl QueueFull)"
  proof
    assume l: "length xs = c"
    have "qsize (Queue c :: 'a queue) + int (length xs) \<le> capacity (Queue c :: 'a queue)"
      using l by (simp add: Queue_def)
    from enqueue_all_ok [OF queue_inv_Queue this] obtain q' where
      q': "enqueue_all xs (Queue c) = Inr q'" "qsize q' = qsize (Queue c :: 'a queue) + int (length xs)"
          "capacity q' = capacity (Queue c :: 'a queue)"
          "contents q' = contents (Queue c :: 'a queue) @ map Some xs"
      by blast
    from q'(2,3) l have "qsize q' = capacity q'" by (simp add: Queue_def)
    then have "enqueue y q' = Inl QueueFull" by (simp add: enqueue_full_iff)
    with q' show "\<exists>q'. enqueue_all xs (Queue c :: 'a queue) = Inr q' \<and> contents q' = map Some xs \<and>
                  enqueue y q' = Inl QueueFull"
      by (simp add: contents_Queue)
  qed
  have len: "int (length (contents q)) = qsize q"
    using assms by (simp add: contents_def queue_inv_def)
  have enq: "qsize q \<noteq> capacity q \<longrightarrow>
            (\<exists>q'. enqueue x q = Inr q' \<and> qsize q' = qsize q + 1 \<and>
                  contents q' = contents q @ [Some x] \<and> queue_inv q')"
    using enqueue_ok [OF assms, of x] by blast
  have deq: "qsize q \<noteq> 0 \<longrightarrow>
            peek q = Inr (hd (contents q)) \<and>
            (\<exists>q'. dequeue q = Inr (hd (contents q), q') \<and> qsize q' = qsize q - 1 \<and>
                  contents q' = tl (contents q) \<and> queue_inv q')"
    using dequeue_ok [OF assms] peek_ok [OF assms] by blast
  show ?thesis
    using full len enq deq
    by (simp only: enqueue_full_iff dequeue_empty_iff peek_empty_iff queue_inv_Queue
        contents_Queue simp_thms)
qed

theorem bounded_fifo_queue_contract_witness:
  "queue_inv \<lparr> capacity = 2, items = [Some (7::nat), None], front = 0, qsize = 1, rear = 0 \<rparr> \<and>
   (\<exists>q'. enqueue 8 \<lparr> capacity = 2, items = [Some (7::nat), None], front = 0, qsize = 1, rear = 0 \<rparr>
            = Inr q' \<and> qsize q' = 2 \<and> contents q' = [Some 7, Some 8]) \<and>
   (\<exists>q'. dequeue \<lparr> capacity = 2, items = [Some (7::nat), None], front = 0, qsize = 1, rear = 0 \<rparr>
            = Inr (Some 7, q') \<and> qsize q' = 0 \<and> contents q' = []) \<and>
   (\<exists>q'. enqueue_all [1, 2] (Queue 2 :: nat queue) = Inr q' \<and>
         contents q' = [Some 1, Some 2] \<and> enqueue 3 q' = Inl QueueFull)"
proof -
  let ?q = "\<lparr> capacity = 2, items = [Some (7::nat), None], front = 0, qsize = 1, rear = 0 \<rparr>"
  have inv: "queue_inv ?q" by (simp add: queue_inv_def)
  have c: "contents ?q = [Some 7]" by (simp add: contents_def)
  have h: "qsize ?q \<noteq> capacity ?q" "qsize ?q \<noteq> 0" "length [1, 2 :: nat] = 2" by simp_all
  note t = bounded_fifo_queue_contract [OF inv, of 8 2 "[1, 2]" 3]
  from t h(1) have a: "\<exists>q'. enqueue 8 ?q = Inr q' \<and> qsize q' = qsize ?q + 1 \<and>
      contents q' = contents ?q @ [Some 8] \<and> queue_inv q'" by blast
  from t h(2) have b: "\<exists>q'. dequeue ?q = Inr (hd (contents ?q), q') \<and> qsize q' = qsize ?q - 1 \<and>
      contents q' = tl (contents ?q) \<and> queue_inv q'" by blast
  from t h(3) have d: "\<exists>q'. enqueue_all [1, 2] (Queue 2 :: nat queue) = Inr q' \<and>
      contents q' = map Some [1, 2] \<and> enqueue 3 q' = Inl QueueFull" by blast
  from a have a': "\<exists>q'. enqueue 8 ?q = Inr q' \<and> qsize q' = 2 \<and> contents q' = [Some 7, Some 8]"
    unfolding c by auto
  from b have b': "\<exists>q'. dequeue ?q = Inr (Some 7, q') \<and> qsize q' = 0 \<and> contents q' = []"
    unfolding c by auto
  from d have d': "\<exists>q'. enqueue_all [1, 2] (Queue 2 :: nat queue) = Inr q' \<and>
      contents q' = [Some 1, Some 2] \<and> enqueue 3 q' = Inl QueueFull"
    by auto
  show ?thesis
    using inv a' b' d' by blast
qed

section \<open>Properties of the write serializer\<close>

lemma dequeue_more:
  "dequeue pq = Inr (x, pq') \<Longrightarrow> isExecuting pq' = isExecuting pq \<and> frame pq' = frame pq"
  by (auto simp: dequeue_def Let_def split: if_splits)

lemma enqueue_more:
  "enqueue x pq = Inr pq' \<Longrightarrow> isExecuting pq' = isExecuting pq \<and> frame pq' = frame pq"
  by (auto simp: enqueue_def Let_def split: if_splits)

lemma contents_more [simp]:
  "contents (pq\<lparr> isExecuting := b \<rparr>) = contents pq"
  "contents (pq\<lparr> frame := f \<rparr>) = contents pq"
  by (simp_all add: contents_def)

lemma queue_inv_more [simp]:
  "queue_inv (pq\<lparr> isExecuting := b \<rparr>) = queue_inv pq"
  "queue_inv (pq\<lparr> frame := f \<rparr>) = queue_inv pq"
  by (simp_all add: queue_inv_def)

lemma contents_nonempty:
  assumes "queue_inv q" "contents q = x # xs"
  shows "qsize q \<noteq> 0"
  using assms by (auto simp: contents_def)

lemma execute_loop_head:
  assumes inv: "queue_inv pq" and head: "contents pq = Some it # rest"
  shows "\<exists>pq'. contents pq' = rest \<and> queue_inv pq' \<and> isExecuting pq' = isExecuting pq \<and>
           capacity pq' = capacity pq \<and>
           execute_loop (pq, w) =
             (case func it w of
                (Inl e, w') \<Rightarrow> execute_catch e (pq', w')
              | (Inr result, w') \<Rightarrow> (pq'\<lparr> frame := AwaitItem result (callback it) \<rparr>, w'))"
proof -
  have ne: "qsize pq \<noteq> 0" using contents_nonempty [OF inv head] .
  from dequeue_ok [OF inv ne] obtain pq' where
    d: "dequeue pq = Inr (hd (contents pq), pq')" "contents pq' = tl (contents pq)" "queue_inv pq'"
       "capacity pq' = capacity pq"
    by blast
  from d(1) have m: "isExecuting pq' = isExecuting pq" using dequeue_more by blast
  have "execute_loop (pq, w) =
             (case func it w of
                (Inl e, w') \<Rightarrow> execute_catch e (pq', w')
              | (Inr result, w') \<Rightarrow> (pq'\<lparr> frame := AwaitItem result (callback it) \<rparr>, w'))"
    using ne d(1) head by (simp add: execute_loop_def isEmpty_def)
  with d m head show ?thesis by auto
qed

lemma execute_resume_idle: "frame pq = NotSuspended \<Longrightarrow> execute_resume (pq, w) = (pq, w)"
  by (simp add: execute_resume_def)

text \<open>
  Claim C2, as the code has it. The \<open>try\<close> of \<open>execute\<close> encloses the whole \<open>while\<close>
  loop. When the work function of the job at the head of the queue throws, or the
  completion callback of the job just run throws, the error is printed and the drain pass
  ends: \<open>isExecuting\<close> is reset, no call of \<open>execute\<close> stays suspended, and the jobs
  behind the failing one stay in the queue, in order. With jobs left behind and no pass
  under way, an \<open>enqueue\<close> that the queue accepts starts a new pass, and so does a call
  of \<open>execute\<close>; the new pass calls the first of the jobs left behind before anything
  else. An \<open>enqueue\<close> on a full queue fails with \<open>QueueFull\<close> and starts no pass.
\<close>

theorem drain_pass_ends_at_error:
  assumes inv: "queue_inv pq" and head: "contents pq = Some it # rest"
  shows "(func it w = (Inl e, w1) \<longrightarrow>
            (\<exists>pq'. execute_loop (pq, w) = (pq', w1\<lparr> console := console w1 @ [PROCESS_QUEUE_ERROR e] \<rparr>) \<and>
                   \<not> isExecuting pq' \<and> frame pq' = NotSuspended \<and> contents pq' = rest \<and>
                   queue_inv pq')) \<and>
         (frame pq = AwaitItem r (Some cb) \<and> cb r w = (Inl e, w1) \<longrightarrow>
            (\<exists>pq'. execute_resume (pq, w) = (pq', w1\<lparr> console := console w1 @ [PROCESS_QUEUE_ERROR e] \<rparr>) \<and>
                   \<not> isExecuting pq' \<and> frame pq' = NotSuspended \<and> contents pq' = Some it # rest \<and>
                   queue_inv pq')) \<and>
         (\<not> isExecuting pq \<and> qsize pq \<noteq> capacity pq \<longrightarrow>
            (\<exists>pq1 pq2. pq_enqueue j c (pq, w) = Inr (execute_loop (pq1, w)) \<and> isExecuting pq1 \<and>
                   contents pq1 = Some it # rest @ [Some \<lparr> func = j, callback = c \<rparr>] \<and>
                   execute_loop (pq1, w) =
                     (case func it w of
                        (Inl e, w') \<Rightarrow> execute_catch e (pq2, w')
                      | (Inr result, w') \<Rightarrow> (pq2\<lparr> frame := AwaitItem result (callback it) \<rparr>, w')) \<and>
                   contents pq2 = rest @ [Some \<lparr> func = j, callback = c \<rparr>])) \<and>
         (qsize pq = capacity pq \<longrightarrow> pq_enqueue j c (pq, w) = Inl QueueFull) \<and>
         (\<not> isExecuting pq \<longrightarrow>
            (\<exists>pq2. execute (pq, w) =
                     (case func it w of
                        (Inl e, w') \<Rightarrow> execute_catch e (pq2, w')
                      | (Inr result, w') \<Rightarrow> (pq2\<lparr> frame := AwaitItem result (callback it) \<rparr>, w')) \<and>
                   isExecuting pq2 \<and> contents pq2 = rest))"
proof (intro conjI impI)
  assume f: "func it w = (Inl e, w1)"
  from execute_loop_head [OF inv head, of w] obtain pq' where
    p: "contents pq' = rest" "queue_inv pq'"
       "execute_loop (pq, w) = execute_catch e (pq', w1)"
    using f by auto
  show "\<exists>pq'. execute_loop (pq, w) = (pq', w1\<lparr> console := console w1 @ [PROCESS_QUEUE_ERROR e] \<rparr>) \<and>
                   \<not> isExecuting pq' \<and> frame pq' = NotSuspended \<and> contents pq' = rest \<and>
                   queue_inv pq'"
    using p by (simp add: execute_catch_def)
next
  assume "frame pq = AwaitItem r (Some cb) \<and> cb r w = (Inl e, w1)"
  then show "\<exists>pq'. execute_resume (pq, w) = (pq', w1\<lparr> console := console w1 @ [PROCESS_QUEUE_ERROR e] \<rparr>) \<and>
                   \<not> isExecuting pq' \<and> frame pq' = NotSuspended \<and> contents pq' = Some it # rest \<and>
                   queue_inv pq'"
    using inv head by (simp add: execute_resume_def execute_catch_def)
next
  assume a: "\<not> isExecuting pq \<and> qsize pq \<noteq> capacity pq"
  let ?it = "\<lparr> func = j, callback = c \<rparr>"
  from enqueue_ok [OF inv, of ?it] a obtain pq0 where
    q: "enqueue ?it pq = Inr pq0" "contents pq0 = contents pq @ [Some ?it]" "queue_inv pq0"
    by blast
  from q(1) a have ex: "\<not> isExecuting pq0" using enqueue_more by blast
  have ne: "\<not> isEmpty pq0" using contents_nonempty [OF q(3)] q(2) head by (simp add: isEmpty_def)
  let ?pq1 = "pq0\<lparr> isExecuting := True \<rparr>"
  have e: "pq_enqueue j c (pq, w) = Inr (execute_loop (?pq1, w))"
    using q(1) ex ne by (simp add: pq_enqueue_def execute_def)
  have c1: "contents ?pq1 = Some it # rest @ [Some ?it]" using q(2) head by simp
  have i1: "queue_inv ?pq1" using q(3) by simp
  from execute_loop_head [OF i1 c1, of w] obtain pq2 where
    "contents pq2 = rest @ [Some ?it]"
    "execute_loop (?pq1, w) =
       (case func it w of
          (Inl e, w') \<Rightarrow> execute_catch e (pq2, w')
        | (Inr result, w') \<Rightarrow> (pq2\<lparr> frame := AwaitItem result (callback it) \<rparr>, w'))"
    by blast
  with e c1 show "\<exists>pq1 pq2. pq_enqueue j c (pq, w) = Inr (execute_loop (pq1, w)) \<and> isExecuting pq1 \<and>
                   contents pq1 = Some it # rest @ [Some ?it] \<and>
                   execute_loop (pq1, w) =
                     (case func it w of
                        (Inl e, w') \<Rightarrow> execute_catch e (pq2, w')
                      | (Inr result, w') \<Rightarrow> (pq2\<lparr> frame := AwaitItem result (callback it) \<rparr>, w')) \<and>
                   contents pq2 = rest @ [Some ?it]"
    by (intro exI [of _ ?pq1] exI [of _ pq2]) simp
next
  assume "qsize pq = capacity pq"
  then show "pq_enqueue j c (pq, w) = Inl QueueFull"
    by (simp add: pq_enqueue_def enqueue_def isFull_def)
next
  assume a: "\<not> isExecuting pq"
  let ?pq1 = "pq\<lparr> isExecuting := True \<rparr>"
  have ne: "\<not> isEmpty pq" using contents_nonempty [OF inv head] by (simp add: isEmpty_def)
  have e: "execute (pq, w) = execute_loop (?pq1, w)"
    using a ne by (simp add: execute_def)
  have c1: "contents ?pq1 = Some it # rest" using head by simp
  have i1: "queue_inv ?pq1" using inv by simp
  from execute_loop_head [OF i1 c1, of w] obtain pq2 where
    "contents pq2 = rest" "isExecuting pq2 = isExecuting ?pq1"
    "execute_loop (?pq1, w) =
       (case func it w of
          (Inl e, w') \<Rightarrow> execute_catch e (pq2, w')
        | (Inr result, w') \<Rightarrow> (pq2\<lparr> frame := AwaitItem result (callback it) \<rparr>, w'))"
    by blast
  with e show "\<exists>pq2. execute (pq, w) =
                     (case func it w of
                        (Inl e, w') \<Rightarrow> execute_catch e (pq2, w')
                      | (Inr result, w') \<Rightarrow> (pq2\<lparr> frame := AwaitItem result (callback it) \<rparr>, w')) \<and>
                   isExecuting pq2 \<and> contents pq2 = rest"
    by (intro exI [of _ pq2]) simp
qed

theorem drain_pass_ends_at_error_witness:
  "(\<exists>pq'. execute_loop
           (\<lparr> capacity = 2,
               items = [Some \<lparr> func = throwing_job TypeError, callback = None \<rparr>,
                        Some \<lparr> func = log_job ''second'', callback = None \<rparr>],
               front = 0, qsize = 2, rear = 1, isExecuting = True, frame = AwaitItem () None \<rparr>,
            \<lparr> console = [] \<rparr>)
          = (pq', \<lparr> console = [PROCESS_QUEUE_ERROR TypeError] \<rparr>) \<and>
          \<not> isExecuting pq' \<and> frame pq' = NotSuspended \<and>
          contents pq' = [Some \<lparr> func = log_job ''second'', callback = None \<rparr>]) \<and>
   (\<exists>pq'. execute_resume
           (\<lparr> capacity = 2,
               items = [Some \<lparr> func = log_job ''second'', callback = None \<rparr>, None],
               front = 0, qsize = 1, rear = 0, isExecuting = True,
               frame = AwaitItem () (Some (\<lambda>r. throwing_job SyntaxError)) \<rparr>,
            \<lparr> console = [] \<rparr>)
          = (pq', \<lparr> console = [PROCESS_QUEUE_ERROR SyntaxError] \<rparr>) \<and>
          \<not> isExecuting pq' \<and>
          contents pq' = [Some \<lparr> func = log_job ''second'', callback = None \<rparr>]) \<and>
   (\<exists>s. pq_enqueue (log_job ''third'') None
           (\<lparr> capacity = 2,
               items = [None, Some \<lparr> func = log_job ''second'', callback = None \<rparr>],
               front = 1, qsize = 1, rear = 1, isExecuting = False, frame = NotSuspended \<rparr>,
            \<lparr> console = [] \<rparr>)
          = Inr s \<and> console (snd s) = [Log ''second''] \<and>
          contents (fst s) = [Some \<lparr> func = log_job ''third'', callback = None \<rparr>]) \<and>
   pq_enqueue (log_job ''third'') None
     (\<lparr> capacity = 1, items = [Some \<lparr> func = log_job ''second'', callback = None \<rparr>],
         front = 0, qsize = 1, rear = 0, isExecuting = False, frame = NotSuspended \<rparr>,
      \<lparr> console = [] \<rparr>)
     = Inl QueueFull \<and>
   console (snd (execute
     (\<lparr> capacity = 1, items = [Some \<lparr> func = log_job ''second'', callback = None \<rparr>],
         front = 0, qsize = 1, rear = 0, isExecuting = False, frame = NotSuspended \<rparr>,
      \<lparr> console = [] \<rparr>)))
     = [Log ''second'']"
proof -
  let ?second = "\<lparr> func = log_job ''second'', callback = None \<rparr> :: (unit, unit) pitem"
  let ?failing = "\<lparr> func = throwing_job TypeError, callback = None \<rparr> :: (unit, unit) pitem"
  let ?third = "\<lparr> func = log_job ''third'', callback = None \<rparr> :: (unit, unit) pitem"
  let ?w = "\<lparr> console = [] \<rparr>"
  let ?A = "\<lparr> capacity = 2, items = [Some ?failing, Some ?second],
              front = 0, qsize = 2, rear = 1, isExecuting = True, frame = AwaitItem () None \<rparr>"
  let ?B = "\<lparr> capacity = 2, items = [Some ?second, None],
              front = 0, qsize = 1, rear = 0, isExecuting = True,
              frame = AwaitItem () (Some (\<lambda>r. throwing_job SyntaxError)) \<rparr>"
  let ?C = "\<lparr> capacity = 2, items = [None, Some ?second],
              front = 1, qsize = 1, rear = 1, isExecuting = False, frame = NotSuspended \<rparr>"
  let ?D = "\<lparr> capacity = 1, items = [Some ?second],
              front = 0, qsize = 1, rear = 0, isExecuting = False, frame = NotSuspended \<rparr>"
  have invA: "queue_inv ?A" and invB: "queue_inv ?B" and invC: "queue_inv ?C"
    and invD: "queue_inv ?D"
    by (simp_all add: queue_inv_def)
  have cD: "contents ?D = [Some ?second]" by (simp add: contents_def upt_rec)
  have fD: "qsize ?D = capacity ?D" "\<not> isExecuting ?D" by simp_all
  note tD = drain_pass_ends_at_error [OF invD cD, of ?w _ _ _ _ "log_job ''third''" None]
  from tD fD(1) have d1: "pq_enqueue (log_job ''third'') None (?D, ?w) = Inl QueueFull"
    by blast
  from tD fD(2) obtain pqD where
    "execute (?D, ?w) =
       (case func ?second ?w of
          (Inl e, w') \<Rightarrow> execute_catch e (pqD, w')
        | (Inr result, w') \<Rightarrow> (pqD\<lparr> frame := AwaitItem result (callback ?second) \<rparr>, w'))"
    by blast
  then have d2: "console (snd (execute (?D, ?w))) = [Log ''second'']"
    by (simp add: log_job_def)
  have cA: "contents ?A = [Some ?failing, Some ?second]"
    and cB: "contents ?B = [Some ?second]" and cC: "contents ?C = [Some ?second]"
    by (simp_all add: contents_def upt_rec)
  have fA: "func ?failing ?w = (Inl TypeError, ?w)" by (simp add: throwing_job_def)
  have fB: "frame ?B = AwaitItem () (Some (\<lambda>r. throwing_job SyntaxError)) \<and>
            (\<lambda>r. throwing_job SyntaxError) () ?w = (Inl SyntaxError, ?w)"
    by (simp add: throwing_job_def)
  have fC: "\<not> isExecuting ?C \<and> qsize ?C \<noteq> capacity ?C" by simp
  from drain_pass_ends_at_error [OF invA cA, of ?w TypeError ?w] fA
  have a: "\<exists>pq'. execute_loop (?A, ?w) = (pq', ?w\<lparr> console := console ?w @ [PROCESS_QUEUE_ERROR TypeError] \<rparr>) \<and>
            \<not> isExecuting pq' \<and> frame pq' = NotSuspended \<and> contents pq' = [Some ?second] \<and>
            queue_inv pq'"
    by blast
  from drain_pass_ends_at_error [OF invB cB, of ?w SyntaxError ?w "()" "\<lambda>r. throwing_job SyntaxError"] fB
  have b: "\<exists>pq'. execute_resume (?B, ?w) = (pq', ?w\<lparr> console := console ?w @ [PROCESS_QUEUE_ERROR SyntaxError] \<rparr>) \<and>
            \<not> isExecuting pq' \<and> frame pq' = NotSuspended \<and> contents pq' = [Some ?second] \<and>
            queue_inv pq'"
    by blast
  from drain_pass_ends_at_error [OF invC cC, of ?w _ _ _ _ "log_job ''third''" None] fC
  obtain pq1 pq2 where
    c: "pq_enqueue (log_job ''third'') None (?C, ?w) = Inr (execute_loop (pq1, ?w))"
       "execute_loop (pq1, ?w) =
          (case func ?second ?w of
             (Inl e, w') \<Rightarrow> execute_catch e (pq2, w')
           | (Inr result, w') \<Rightarrow> (pq2\<lparr> frame := AwaitItem result (callback ?second) \<rparr>, w'))"
       "contents pq2 = [] @ [Some ?third]"
    by blast
  from c have c': "\<exists>s. pq_enqueue (log_job ''third'') None (?C, ?w) = Inr s \<and>
      console (snd s) = [Log ''second''] \<and> contents (fst s) = [Some ?third]"
    by (simp add: log_job_def)
  from a have a': "\<exists>pq'. execute_loop (?A, ?w) = (pq', \<lparr> console = [PROCESS_QUEUE_ERROR TypeError] \<rparr>) \<and>
            \<not> isExecuting pq' \<and> frame pq' = NotSuspended \<and> contents pq' = [Some ?second]"
    by auto
  from b have b': "\<exists>pq'. execute_resume (?B, ?w) = (pq', \<lparr> console = [PROCESS_QUEUE_ERROR SyntaxError] \<rparr>) \<and>
            \<not> isExecuting pq' \<and> contents pq' = [Some ?second]"
    by auto
  show ?thesis
    by (rule conjI [OF a' conjI [OF b' conjI [OF c' conjI [OF d1 d2]]]])
qed

text \<open>
  Claim C2 as it is written fails. Three jobs are enqueued in one synchronous block on a
  new queue; the second throws. The first runs inside its own \<open>enqueue\<close>; when the loop is
  resumed the second throws and the pass ends. However often the event loop is asked to
  resume \<open>execute\<close> after that, the third job has not run: nothing of it is on the
  console, and it is still in the queue, with \<open>isExecuting\<close> false.
\<close>

theorem third_job_left_in_queue: "\<not> isl (run_jobs 3 [log_job ''first'', throwing_job TypeError, log_job ''third''] 5) \<and>
   qsize (fst (projr (run_jobs 3 [log_job ''first'', throwing_job TypeError, log_job ''third''] 5))) = 1 \<and>
   \<not> isExecuting (fst (projr (run_jobs 3 [log_job ''first'', throwing_job TypeError, log_job ''third''] 5))) \<and>
   frame (fst (projr (run_jobs 3 [log_job ''first'', throwing_job TypeError, log_job ''third''] 5))) = NotSuspended \<and>
   console (snd (projr (run_jobs 3 [log_job ''first'', throwing_job TypeError, log_job ''third''] 5)))
     = [Log ''first'', PROCESS_QUEUE_ERROR TypeError]"
  by (simp add: run_jobs_def pq_enqueue_def enqueue_def isFull_def ProcessQueue_def Queue_def
       queue.extend_def js_rem_def execute_def execute_loop_def execute_resume_def execute_catch_def
       isEmpty_def dequeue_def log_job_def throwing_job_def numeral_3_eq_3 eval_nat_numeral)

section \<open>Properties of the string and byte conversions\<close>


lemma hex_value_hex_digit: "d < 16 \<Longrightarrow> hex_value (hex_digit d) = Some d"
  by (auto simp: hex_value_def hex_digit_def)

lemma hex_digit_not_colon: "d < 16 \<Longrightarrow> hex_digit d \<noteq> 58"
  by (auto simp: hex_digit_def)

lemma from_hex_to_hex: "from_hex (to_hex bs) = bs"
proof (induction bs)
  case Nil
  then show ?case by (simp add: to_hex_def)
next
  case (Cons b bs)
  have "unat b < 256" using unsigned_less [of b] by simp
  then have d: "unat b div 16 < 16" "unat b mod 16 < 16" by auto
  have "(of_nat (16 * (unat b div 16) + unat b mod 16) :: 8 word) = b"
    by simp
  with Cons d show ?case
    by (simp add: to_hex_def hex_value_hex_digit)
qed

lemma colon_notin_to_hex: "58 \<notin> set (to_hex bs)"
proof (induction bs)
  case Nil
  then show ?case by (simp add: to_hex_def)
next
  case (Cons b bs)
  have "unat b < 256" using unsigned_less [of b] by simp
  then have d: "unat b div 16 < 16" "unat b mod 16 < 16" by auto
  with Cons show ?case
    using hex_digit_not_colon by (auto simp: to_hex_def)
qed

lemma split_append_sep:
  "sep \<notin> set xs \<Longrightarrow> split sep (xs @ sep # ys) = xs # split sep ys"
  by (induction xs) auto

lemma split_no_sep: "sep \<notin> set xs \<Longrightarrow> split sep xs = [xs]"
  by (induction xs) auto

lemma split_encoded:
  assumes "58 \<notin> set t"
  shows "split 58 (to_hex iv @ [58] @ to_hex ct @ [58] @ t) = [to_hex iv, to_hex ct, t]"
  using assms by (simp add: split_append_sep split_no_sep colon_notin_to_hex)

lemma digits_first: "digits n \<noteq> [] \<and> 48 \<le> hd (digits n) \<and> hd (digits n) \<le> 57"
proof (induction n rule: digits.induct)
  case (1 n)
  show ?case
  proof (cases "n < 10")
    case True
    then show ?thesis by (subst digits.simps, subst digits.simps, subst digits.simps) simp
  next
    case False
    with 1 show ?thesis by (subst digits.simps, subst digits.simps, subst digits.simps) simp
  qed
qed

lemma bigint_toString_not_true: "toLowerCase (bigint_toString i) \<noteq> str ''true''"
proof -
  have "hd (toLowerCase (bigint_toString i)) \<noteq> 116"
    using digits_first [of "nat i"] digits_first [of "nat (- i)"]
    by (auto simp: bigint_toString_def toLowerCase_def hd_map)
  then show ?thesis by (auto simp: str_def)
qed

section \<open>A write on a system at rest\<close>


lemma queue_inv_qsize: "queue_inv q \<Longrightarrow> int (length (contents q)) = qsize q"
  by (simp add: contents_def queue_inv_def)

lemma suspended_iff: "suspended f \<longleftrightarrow> f \<noteq> NotSuspended"
  by (cases f) auto

lemma pq_enqueue_idle:
  assumes "idle_queue pq"
  shows "\<exists>pq'. idle_queue pq' \<and>
           pq_enqueue f None (pq, w) =
             Inr (case f w of
                    (Inl e, w') \<Rightarrow> (pq', w'\<lparr> console := console w' @ [PROCESS_QUEUE_ERROR e] \<rparr>)
                  | (Inr r, w') \<Rightarrow> (pq'\<lparr> isExecuting := True, frame := AwaitItem r None \<rparr>, w'))"
proof -
  let ?it = "\<lparr> func = f, callback = None \<rparr>"
  from assms have inv: "queue_inv pq" and sz: "qsize pq = 0" and cap: "0 < capacity pq"
    and ex: "\<not> isExecuting pq" and fr: "frame pq = NotSuspended"
    by (auto simp: idle_queue_def suspended_iff)
  from sz cap have nf: "qsize pq \<noteq> capacity pq" by simp
  from inv sz have c0: "contents pq = []" using queue_inv_qsize [of pq] by simp
  from enqueue_ok [OF inv nf, of ?it] obtain pq0 where
    q: "enqueue ?it pq = Inr pq0" "contents pq0 = contents pq @ [Some ?it]" "queue_inv pq0"
       "capacity pq0 = capacity pq"
    by blast
  from q(1) ex fr have ex0: "\<not> isExecuting pq0" "frame pq0 = NotSuspended"
    using enqueue_more by fastforce+
  have "contents pq0 = Some ?it # []" using q(2) c0 by simp
  from contents_nonempty [OF q(3) this]
  have ne: "\<not> isEmpty pq0" by (simp add: isEmpty_def)
  let ?pq1 = "pq0\<lparr> isExecuting := True \<rparr>"
  have e: "pq_enqueue f None (pq, w) = Inr (execute_loop (?pq1, w))"
    using q(1) ex0 ne by (simp add: pq_enqueue_def execute_def)
  have c1: "contents ?pq1 = Some ?it # []" using q(2) c0 by simp
  have i1: "queue_inv ?pq1" using q(3) by simp
  from execute_loop_head [OF i1 c1, of w] obtain pq2 where
    p2: "contents pq2 = []" "queue_inv pq2" "isExecuting pq2 = isExecuting ?pq1"
        "capacity pq2 = capacity ?pq1"
        "execute_loop (?pq1, w) =
       (case func ?it w of
          (Inl e, w') \<Rightarrow> execute_catch e (pq2, w')
        | (Inr result, w') \<Rightarrow> (pq2\<lparr> frame := AwaitItem result (callback ?it) \<rparr>, w'))"
    by blast
  let ?pq' = "pq2\<lparr> isExecuting := False, frame := NotSuspended \<rparr>"
  have idle': "idle_queue ?pq'"
    using p2(1,2,4) q(4) cap queue_inv_qsize [of pq2] by (simp add: idle_queue_def)
  have ex2: "isExecuting pq2" using p2(3) by simp
  have r: "pq2\<lparr> frame := AwaitItem r None \<rparr> = ?pq'\<lparr> isExecuting := True, frame := AwaitItem r None \<rparr>" for r
    using ex2 by simp
  have "pq_enqueue f None (pq, w) =
             Inr (case f w of
                    (Inl e, w') \<Rightarrow> (?pq', w'\<lparr> console := console w' @ [PROCESS_QUEUE_ERROR e] \<rparr>)
                  | (Inr r, w') \<Rightarrow> (?pq'\<lparr> isExecuting := True, frame := AwaitItem r None \<rparr>, w'))"
    unfolding e p2(5) using r by (auto simp: execute_catch_def split: prod.splits sum.splits)
  with idle' show ?thesis by blast
qed

lemma execute_resume_idle_after:
  assumes "idle_queue pq"
  shows "execute_resume (pq\<lparr> isExecuting := True, frame := AwaitItem r None \<rparr>, w) = (pq, w)"
  using assms
  by (cases "frame pq") (auto simp: execute_resume_def execute_loop_def isEmpty_def idle_queue_def)


lemma run_microtasks_empty: "microtasks s = [] \<Longrightarrow> run_microtasks P n s = ([], s)"
  by (cases n) simp_all

lemma write_call_accepts:
  assumes "createHashKey P key = Inr hKey" and "cachable v" and "\<not> isPaused (state s)"
  shows "write_call P key v exp obf s =
           (None, s\<lparr> microtasks := microtasks s @ [WriteResume key hKey v exp obf (typeOf v)] \<rparr>)"
  using assms
  by (simp add: write_call_def cachable_def pauseUntilOperationsResumed_def)

lemma write_resume_idle:
  assumes iq: "idle_queue (writeQueue s)" and m: "microtasks s = []"
    and enc: "(if obf then encode P v (state s) else (v, state s)) = (value', w1)"
    and jr: "write_job P key hKey value' exp obf ty w1 = (r, w')"
  shows "\<exists>pq'. idle_queue pq' \<and>
           write_resume P key hKey v exp obf ty s =
             (case r of
                Inl e \<Rightarrow>
                  (Inr (), \<lparr> state = w'\<lparr> console := console w' @ [PROCESS_QUEUE_ERROR e] \<rparr>,
                            writeQueue = pq', microtasks = [] \<rparr>)
              | Inr u \<Rightarrow>
                  (Inr (), \<lparr> state = w',
                            writeQueue = pq'\<lparr> isExecuting := True, frame := AwaitItem u None \<rparr>,
                            microtasks = [DrainResume] \<rparr>))"
proof -
  let ?job = "write_job P key hKey value' exp obf ty"
  from iq have nex: "\<not> isExecuting (writeQueue s)" by (simp add: idle_queue_def)
  from pq_enqueue_idle [OF iq, of ?job w1] obtain pq' where
    pq': "idle_queue pq'"
      "pq_enqueue ?job None (writeQueue s, w1) =
         Inr (case ?job w1 of
                (Inl e, w') \<Rightarrow> (pq', w'\<lparr> console := console w' @ [PROCESS_QUEUE_ERROR e] \<rparr>)
              | (Inr r, w') \<Rightarrow> (pq'\<lparr> isExecuting := True, frame := AwaitItem r None \<rparr>, w'))"
    by blast
  from pq'(1) have ns: "\<not> suspended (frame pq')" by (simp add: idle_queue_def)
  have "write_resume P key hKey v exp obf ty s =
             (case r of
                Inl e \<Rightarrow>
                  (Inr (), \<lparr> state = w'\<lparr> console := console w' @ [PROCESS_QUEUE_ERROR e] \<rparr>,
                            writeQueue = pq', microtasks = [] \<rparr>)
              | Inr u \<Rightarrow>
                  (Inr (), \<lparr> state = w',
                            writeQueue = pq'\<lparr> isExecuting := True, frame := AwaitItem u None \<rparr>,
                            microtasks = [DrainResume] \<rparr>))"
    unfolding write_resume_def enc
    using pq'(2) jr nex ns m by (cases r) simp_all
  with pq'(1) show ?thesis by blast
qed

lemma write_drained:
  assumes idle: "idle s" and hash: "createHashKey P key = Inr hKey" and ok: "cachable v"
    and enc: "(if obf then encode P v (state s) else (v, state s)) = (value', w1)"
    and jr: "write_job P key hKey value' exp obf (typeOf v) w1 = (r, w')"
  shows "\<exists>pq'. idle_queue pq' \<and>
           run_microtasks P (Suc (Suc n)) (snd (write_call P key v exp obf s)) =
             (case r of
                Inl e \<Rightarrow>
                  ([WriteSettled (Inr ())],
                   \<lparr> state = w'\<lparr> console := console w' @ [PROCESS_QUEUE_ERROR e] \<rparr>,
                     writeQueue = pq', microtasks = [] \<rparr>)
              | Inr u \<Rightarrow>
                  ([WriteSettled (Inr ()), NoOutcome],
                   \<lparr> state = w', writeQueue = pq', microtasks = [] \<rparr>))"
proof -
  from idle have m: "microtasks s = []" and np: "\<not> isPaused (state s)"
    and iq: "idle_queue (writeQueue s)"
    by (auto simp: idle_def)
  have wc: "snd (write_call P key v exp obf s) =
      s\<lparr> microtasks := [WriteResume key hKey v exp obf (typeOf v)] \<rparr>"
    using write_call_accepts [OF hash ok np] m by simp
  have iq': "idle_queue (writeQueue (s\<lparr> microtasks := [] \<rparr>))"
    and m': "microtasks (s\<lparr> microtasks := [] \<rparr>) = []"
    using iq by simp_all
  have enc': "(if obf then encode P v (state (s\<lparr> microtasks := [] \<rparr>))
                else (v, state (s\<lparr> microtasks := [] \<rparr>))) = (value', w1)"
    using enc by (cases obf) simp_all
  from write_resume_idle [OF iq' m' enc' jr] obtain pq' where
    pq': "idle_queue pq'"
      "write_resume P key hKey v exp obf (typeOf v) (s\<lparr> microtasks := [] \<rparr>) =
             (case r of
                Inl e \<Rightarrow>
                  (Inr (), \<lparr> state = w'\<lparr> console := console w' @ [PROCESS_QUEUE_ERROR e] \<rparr>,
                            writeQueue = pq', microtasks = [] \<rparr>)
              | Inr u \<Rightarrow>
                  (Inr (), \<lparr> state = w',
                            writeQueue = pq'\<lparr> isExecuting := True, frame := AwaitItem u None \<rparr>,
                            microtasks = [DrainResume] \<rparr>))"
    by blast
  from pq'(1) have ns: "\<not> suspended (frame pq')" by (simp add: idle_queue_def)
  show ?thesis
  proof (cases r)
    case (Inl e)
    then show ?thesis
      using pq' wc
      by (intro exI [of _ pq']) (simp add: run_task_def run_microtasks_empty)
  next
    case (Inr u)
    then show ?thesis
      using pq' wc ns execute_resume_idle_after [OF pq'(1), of u w']
      by (intro exI [of _ pq'])
         (simp add: run_task_def run_microtasks_empty drain_resume_def)
  qed
qed

section \<open>The new cache and the example runtime\<close>


lemma Cache_fields:
  "console (Cache P) = []" "heap (Cache P) = []" "data (Cache P) = []" "temp (Cache P) = None"
  "\<not> isPaused (Cache P)" "fideliusCharm (Cache P) = Some (randomBytes P 0 32)"
  "existingRotatorTimerObject (Cache P) = Some (clear_function 0)"
  "timers (Cache P) = [(0, maxDelay, Chain rotateKey_callback (Duration_days 90 - maxDelay))]"
  "timer_count (Cache P) = 1" "random_count (Cache P) = 1"
  "defaultKeyRotationDuration (Cache P) = Duration_days 90"
  by (simp_all add: Cache_def rotator_def setUnboundedTimeout_def setTimeout_def
      Duration_days_def maxDelay_def maxTotalDelay_def)

lemma idle_new_system: "idle (new_system P)"
  by (simp add: idle_def idle_queue_def new_system_def Cache_fields ProcessQueue_def Queue_def
      queue.extend_def queue_inv_def)

lemma example_hash:
  "createHashKey example_platform (str ''a b'') = Inr 5863208"
  "createHashKey example_platform (str ''ab'') = Inr 5863208"
  "createHashKey example_platform (str ''k'') = Inr 177680"
  by (simp_all add: createHashKey_def example_platform_def str_def is_whitespace_def
      shift_left_5_def)


lemma run_microtasks_numeral:
  "run_microtasks P (numeral k) s = run_microtasks P (Suc (pred_numeral k)) s"
  by (simp only: numeral_eq_Suc)

lemmas model_defs =
  new_system_def Cache_def rotator_def setUnboundedTimeout_def setTimeout_def Duration_days_def
  maxDelay_def maxTotalDelay_def example_platform_def write_call_def createHashKey_def
  is_whitespace_def shift_left_5_def str_def pauseUntilOperationsResumed_def
  run_task_def write_resume_def encode_def converttostring_def stringified_def to_hex_def hex_digit_def
  pq_enqueue_def enqueue_def isFull_def isEmpty_def ProcessQueue_def Queue_def queue.extend_def
  js_rem_def execute_def execute_loop_def execute_catch_def dequeue_def write_job_def
  createCheckSum_def validateKeyCheckSum_def drain_resume_def execute_resume_def
  read_call_def read_resume_def decode_def rotateKey_def handleBeforeKeyRotated_def
  emit_resume_def handleKeyRotated_def destroy_def toType_def has_def delete_key_def
  run_microtasks_numeral Let_def

section \<open>Properties of the cache\<close>


lemma encode_fields:
  "data (snd (encode P v w)) = data w"
  "heap (snd (encode P v w)) = heap w"
  "isPaused (snd (encode P v w)) = isPaused w"
  "fideliusCharm (snd (encode P v w)) = fideliusCharm w"
  "timers (snd (encode P v w)) = timers w"
  by (auto simp: encode_def Let_def split: prod.splits option.splits jsval.splits sum.splits)

lemma setUnboundedTimeout_fields:
  "data (snd (setUnboundedTimeout cb d w)) = data w"
  "heap (snd (setUnboundedTimeout cb d w)) = heap w"
  "isPaused (snd (setUnboundedTimeout cb d w)) = isPaused w"
  "fideliusCharm (snd (setUnboundedTimeout cb d w)) = fideliusCharm w"
  "console (snd (setUnboundedTimeout cb d w)) = console w"
  by (auto simp: setUnboundedTimeout_def setTimeout_def Let_def)

lemma runCacheCleanup_fields:
  "data (snd (runCacheCleanup k ex w)) = data w"
  "heap (snd (runCacheCleanup k ex w)) = heap w"
  "isPaused (snd (runCacheCleanup k ex w)) = isPaused w"
  "fideliusCharm (snd (runCacheCleanup k ex w)) = fideliusCharm w"
  "console (snd (runCacheCleanup k ex w)) = console w"
proof -
  have "snd (runCacheCleanup k ex w) =
          (case ex of
             Null \<Rightarrow> w
           | Duration ms \<Rightarrow> snd (setUnboundedTimeout (cleanup_callback k ex) ms w)
           | Never \<Rightarrow> snd (setTimeout (Callback (cleanup_callback k ex)) 1 w))"
    by (auto simp: runCacheCleanup_def split: expiration.splits prod.splits sum.splits)
  then show "data (snd (runCacheCleanup k ex w)) = data w"
    "heap (snd (runCacheCleanup k ex w)) = heap w"
    "isPaused (snd (runCacheCleanup k ex w)) = isPaused w"
    "fideliusCharm (snd (runCacheCleanup k ex w)) = fideliusCharm w"
    "console (snd (runCacheCleanup k ex w)) = console w"
    by (simp_all add: setUnboundedTimeout_fields setTimeout_def split: expiration.splits)
qed

lemma write_job_stores:
  assumes "validateKeyCheckSum hKey (createCheckSum P key) w"
  shows "data (snd (write_job P key hKey value' ex obf ty w)) = AList.update hKey (length (heap w)) (data w)"
    and "heap (snd (write_job P key hKey value' ex obf ty w)) =
           heap w @ [\<lparr> val = value', expiresOn = ex, isObfusacated = obf, vtype = ty,
                       checksum = createCheckSum P key \<rparr>]"
    and "isPaused (snd (write_job P key hKey value' ex obf ty w)) = isPaused w"
    and "console (snd (write_job P key hKey value' ex obf ty w)) = console w"
    and "fideliusCharm (snd (write_job P key hKey value' ex obf ty w)) = fideliusCharm w"
  using assms by (simp_all add: write_job_def Let_def runCacheCleanup_fields)

lemma write_job_collision:
  assumes "createHashKey P key = Inr hKey" and "\<not> validateKeyCheckSum hKey (createCheckSum P key) w"
  shows "write_job P key hKey value' ex obf ty w =
           (Inr (), w\<lparr> console := console w @ [WARNING_key_collision],
                        data := AList.delete hKey (data w) \<rparr>)"
  using assms by (simp add: write_job_def delete_key_def)


lemma createHashKey_configured:
  assumes "CACHE_HASH_KEY_INITALIZER P = Some seed" and "seed \<noteq> 0"
  shows "\<exists>h. createHashKey P key = Inr h"
  using assms by (simp add: createHashKey_def Let_def)

lemma createHashKey_whitespace:
  assumes "filter (\<lambda>c. \<not> is_whitespace c) k1 = filter (\<lambda>c. \<not> is_whitespace c) k2"
  shows "createHashKey P k1 = createHashKey P k2"
  using assms by (simp add: createHashKey_def Let_def)

text \<open>
  Claim C4. When the queued function of a \<open>write\<close> finds, at the hashed key of its key,
  an entry whose stored checksum differs from the checksum of its key, it returns without
  an error, the console has the collision warning as its only new line, the entry is gone
  from the bucket, every other bucket is as before, and no entry object and no timer has
  been created: the new value is not stored.
\<close>

theorem collision_deletes_and_discards:
  assumes hash: "createHashKey P key = Inr hKey"
    and found: "map_of (data w) hKey = Some a"
    and differs: "checksum (heap w ! a) \<noteq> createCheckSum P key"
  shows "\<exists>w'. write_job P key hKey value' ex obf ty w = (Inr (), w') \<and>
           map_of (data w') hKey = None \<and>
           (\<forall>h. h \<noteq> hKey \<longrightarrow> map_of (data w') h = map_of (data w) h) \<and>
           heap w' = heap w \<and> timers w' = timers w \<and>
           console w' = console w @ [WARNING_key_collision]"
proof -
  from found differs have "\<not> validateKeyCheckSum hKey (createCheckSum P key) w"
    by (simp add: validateKeyCheckSum_def)
  from write_job_collision [OF hash this, of value' ex obf ty]
  show ?thesis by (simp add: delete_conv')
qed

theorem collision_deletes_and_discards_witness:
  "createHashKey example_platform (str ''ab'') = Inr 5863208 \<and>
   map_of (data ((Cache example_platform)
       \<lparr> heap := [\<lparr> val = VString (str ''first''), expiresOn = Never, isObfusacated = False,
                     vtype = str ''string'', checksum = str ''a b'' \<rparr>],
         data := [(5863208, 0)] \<rparr>)) 5863208 = Some 0 \<and>
   (\<exists>w'. write_job example_platform (str ''ab'') 5863208 (VString (str ''second'')) Never False
           (str ''string'')
           ((Cache example_platform)
              \<lparr> heap := [\<lparr> val = VString (str ''first''), expiresOn = Never,
                            isObfusacated = False, vtype = str ''string'',
                            checksum = str ''a b'' \<rparr>],
                data := [(5863208, 0)] \<rparr>)
         = (Inr (), w') \<and>
         map_of (data w') 5863208 = None \<and> map_of (data w') 1 = None \<and>
         length (heap w') = 1 \<and> console w' = [WARNING_key_collision])"
proof -
  let ?w = "(Cache example_platform)
       \<lparr> heap := [\<lparr> val = VString (str ''first''), expiresOn = Never, isObfusacated = False,
                     vtype = str ''string'', checksum = str ''a b'' \<rparr>],
         data := [(5863208, 0)] \<rparr>"
  have h: "createHashKey example_platform (str ''ab'') = Inr 5863208" by (rule example_hash)
  have f: "map_of (data ?w) 5863208 = Some 0" by simp
  have d: "checksum (heap ?w ! 0) \<noteq> createCheckSum example_platform (str ''ab'')"
    by (simp add: createCheckSum_def example_platform_def str_def)
  from collision_deletes_and_discards [OF h f d, of "VString (str ''second'')" Never False "str ''string''"]
  obtain w' where
    w': "write_job example_platform (str ''ab'') 5863208 (VString (str ''second'')) Never False
           (str ''string'') ?w = (Inr (), w')"
        "map_of (data w') 5863208 = None"
        "\<forall>h. h \<noteq> 5863208 \<longrightarrow> map_of (data w') h = map_of (data ?w) h"
        "heap w' = heap ?w" "console w' = console ?w @ [WARNING_key_collision]"
    by blast
  from w'(3) have "map_of (data w') 1 = None" by simp
  moreover from w'(4) have "length (heap w') = 1" by simp
  moreover from w'(5) have "console w' = [WARNING_key_collision]" by (simp add: Cache_fields)
  ultimately show ?thesis using h f w'(1,2) by blast
qed

text \<open>
  Claim C9. A value of type function, undefined or symbol makes \<open>write\<close> fail before
  its first \<open>await\<close>: the system is left exactly as it was, so nothing has been put on
  the write queue or into the map and no continuation waits; and when the hash seed is
  configured, so that the hashed key can be computed, the error is the
  \<open>CacheException\<close> with the code \<open>NON_CACHABLE_VALUE\<close>.
\<close>

theorem non_cachable_rejected_before_enqueue:
  assumes "\<not> cachable v"
  shows "snd (write_call P key v ex obf s) = s \<and>
         fst (write_call P key v ex obf s) \<noteq> None \<and>
         (CACHE_HASH_KEY_INITALIZER P = Some seed \<and> seed \<noteq> 0 \<longrightarrow>
            write_call P key v ex obf s = (Some NON_CACHABLE_VALUE, s))"
proof -
  from assms have t: "typeOf v = str ''function'' \<or> typeOf v = str ''undefined'' \<or>
      typeOf v = str ''symbol''"
    by (auto simp: cachable_def)
  have a: "snd (write_call P key v ex obf s) = s \<and> fst (write_call P key v ex obf s) \<noteq> None"
    using t by (cases "createHashKey P key") (auto simp: write_call_def)
  have b: "write_call P key v ex obf s = (Some NON_CACHABLE_VALUE, s)"
    if "CACHE_HASH_KEY_INITALIZER P = Some seed \<and> seed \<noteq> 0"
  proof -
    from that createHashKey_configured [of P seed key] obtain h where
      "createHashKey P key = Inr h" by blast
    with t show ?thesis by (auto simp: write_call_def)
  qed
  from a b show ?thesis by blast
qed


theorem non_cachable_rejected_before_enqueue_witness:
  "\<not> cachable VFunction \<and>
   write_call example_platform (str ''k'') VFunction Never False (new_system example_platform)
     = (Some NON_CACHABLE_VALUE, new_system example_platform)"
proof -
  have n: "\<not> cachable VFunction" by (simp add: cachable_def)
  have c: "CACHE_HASH_KEY_INITALIZER example_platform = Some 5381 \<and> (5381 :: int) \<noteq> 0"
    by (simp add: example_platform_def)
  from non_cachable_rejected_before_enqueue [OF n, of example_platform "str ''k''" Never False
      "new_system example_platform" 5381] c
  have "write_call example_platform (str ''k'') VFunction Never False (new_system example_platform)
     = (Some NON_CACHABLE_VALUE, new_system example_platform)"
    by blast
  with n show ?thesis by blast
qed

lemma validateKeyCheckSum_cong:
  "data w' = data w \<Longrightarrow> heap w' = heap w \<Longrightarrow>
   validateKeyCheckSum k c w' = validateKeyCheckSum k c w"
  by (simp add: validateKeyCheckSum_def split: option.splits)

lemma encoded_fields:
  assumes "(if obf then encode P v w else (v, w)) = (value', w1)"
  shows "data w1 = data w" "heap w1 = heap w" "isPaused w1 = isPaused w"
    "fideliusCharm w1 = fideliusCharm w"
  using assms encode_fields [of P v w] by (cases obf; fastforce)+

lemma write_stored:
  assumes idle: "idle s" and hash: "createHashKey P key = Inr hKey" and ok: "cachable v"
    and valid: "validateKeyCheckSum hKey (createCheckSum P key) (state s)"
  shows "\<exists>outs s1. run_microtasks P 2 (snd (write_call P key v ex obf s)) = (outs, s1) \<and>
           idle s1 \<and> hd outs = WriteSettled (Inr ()) \<and>
           data (state s1) = AList.update hKey (length (heap (state s))) (data (state s)) \<and>
           heap (state s1) =
             heap (state s) @
               [\<lparr> val = fst (if obf then encode P v (state s) else (v, state s)),
                  expiresOn = ex, isObfusacated = obf, vtype = typeOf v,
                  checksum = createCheckSum P key \<rparr>] \<and>
           fideliusCharm (state s1) = fideliusCharm (state s)"
proof -
  obtain value' w1 where enc: "(if obf then encode P v (state s) else (v, state s)) = (value', w1)"
    by (cases "if obf then encode P v (state s) else (v, state s)")
  obtain r w' where jr: "write_job P key hKey value' ex obf (typeOf v) w1 = (r, w')"
    by (cases "write_job P key hKey value' ex obf (typeOf v) w1")
  note f = encoded_fields [OF enc]
  have v1: "validateKeyCheckSum hKey (createCheckSum P key) w1"
    using valid validateKeyCheckSum_cong [OF f(1,2)] by simp
  note st = write_job_stores [OF v1, of value' ex obf "typeOf v", unfolded jr snd_conv]
  from idle have np: "\<not> isPaused (state s)" by (simp add: idle_def)
  from write_drained [OF idle hash ok enc jr, of 0] obtain pq' where
    pq': "idle_queue pq'"
      "run_microtasks P (Suc (Suc 0)) (snd (write_call P key v ex obf s)) =
             (case r of
                Inl e \<Rightarrow>
                  ([WriteSettled (Inr ())],
                   \<lparr> state = w'\<lparr> console := console w' @ [PROCESS_QUEUE_ERROR e] \<rparr>,
                     writeQueue = pq', microtasks = [] \<rparr>)
              | Inr u \<Rightarrow>
                  ([WriteSettled (Inr ()), NoOutcome],
                   \<lparr> state = w', writeQueue = pq', microtasks = [] \<rparr>))"
    by blast
  show ?thesis
    using pq' st f np enc
    by (cases r) (simp_all add: numeral_2_eq_2 idle_def del: run_microtasks.simps)
qed

lemma write_collided:
  assumes idle: "idle s" and hash: "createHashKey P key = Inr hKey" and ok: "cachable v"
    and invalid: "\<not> validateKeyCheckSum hKey (createCheckSum P key) (state s)"
  shows "\<exists>s1. run_microtasks P 2 (snd (write_call P key v ex obf s)) =
                ([WriteSettled (Inr ()), NoOutcome], s1) \<and>
           idle s1 \<and> data (state s1) = AList.delete hKey (data (state s)) \<and>
           heap (state s1) = heap (state s) \<and>
           last (console (state s1)) = WARNING_key_collision"
proof -
  obtain value' w1 where enc: "(if obf then encode P v (state s) else (v, state s)) = (value', w1)"
    by (cases "if obf then encode P v (state s) else (v, state s)")
  note f = encoded_fields [OF enc]
  have v1: "\<not> validateKeyCheckSum hKey (createCheckSum P key) w1"
    using invalid validateKeyCheckSum_cong [OF f(1,2)] by simp
  note jr = write_job_collision [OF hash v1, of value' ex obf "typeOf v"]
  from idle have np: "\<not> isPaused (state s)" by (simp add: idle_def)
  from write_drained [OF idle hash ok enc jr, of 0] obtain pq' where
    pq': "idle_queue pq'"
      "run_microtasks P (Suc (Suc 0)) (snd (write_call P key v ex obf s)) =
         ([WriteSettled (Inr ()), NoOutcome],
          \<lparr> state = w1\<lparr> console := console w1 @ [WARNING_key_collision],
                         data := AList.delete hKey (data w1) \<rparr>,
            writeQueue = pq', microtasks = [] \<rparr>)"
    by auto
  show ?thesis
    using pq' f np
    by (simp add: numeral_2_eq_2 idle_def del: run_microtasks.simps)
qed


lemma read_settles:
  assumes "idle s"
  shows "run_microtasks P (Suc n) (read_call key s) = ([ReadSettled (read_resume P key (state s))], s)"
  using assms
  by (simp add: read_call_def pauseUntilOperationsResumed_def idle_def run_task_def
      run_microtasks_empty)

text \<open>
  Claim C5, as the code has it. Two keys \<open>A\<close> and \<open>B\<close> have the same hashed key and
  different checksums, and the bucket is free. After \<open>write\<close> of \<open>A\<close> has drained,
  \<open>has(A)\<close> is true. \<open>write\<close> of \<open>B\<close> is accepted and its promise is fulfilled; after
  it has drained \<open>has(A)\<close> and \<open>has(B)\<close> are both false, and the last line on the console
  is the collision warning.
\<close>

theorem colliding_writes_leave_bucket_empty:
  assumes idle: "idle s"
    and hA: "createHashKey P A = Inr h" and hB: "createHashKey P B = Inr h"
    and cs: "createCheckSum P A \<noteq> createCheckSum P B"
    and free: "map_of (data (state s)) h = None"
    and okA: "cachable vA" and okB: "cachable vB"
  shows "fst (write_call P A vA exA obfA s) = None \<and>
         (let s1 = snd (run_microtasks P 2 (snd (write_call P A vA exA obfA s)))
          in has P A (state s1) = Inr True \<and>
             fst (write_call P B vB exB obfB s1) = None \<and>
             (let (outs, s2) = run_microtasks P 2 (snd (write_call P B vB exB obfB s1))
              in outs = [WriteSettled (Inr ()), NoOutcome] \<and>
                 has P A (state s2) = Inr False \<and> has P B (state s2) = Inr False \<and>
                 last (console (state s2)) = WARNING_key_collision \<and> idle s2))"
proof -
  from idle have np: "\<not> isPaused (state s)" by (simp add: idle_def)
  have vA: "validateKeyCheckSum h (createCheckSum P A) (state s)"
    using free by (simp add: validateKeyCheckSum_def)
  from write_stored [OF idle hA okA vA, of exA obfA] obtain outs s1 where
    s1: "run_microtasks P 2 (snd (write_call P A vA exA obfA s)) = (outs, s1)" "idle s1"
        "data (state s1) = AList.update h (length (heap (state s))) (data (state s))"
        "heap (state s1) =
             heap (state s) @
               [\<lparr> val = fst (if obfA then encode P vA (state s) else (vA, state s)),
                  expiresOn = exA, isObfusacated = obfA, vtype = typeOf vA,
                  checksum = createCheckSum P A \<rparr>]"
    by blast
  from s1(2) have np1: "\<not> isPaused (state s1)" by (simp add: idle_def)
  have mA: "map_of (data (state s1)) h = Some (length (heap (state s)))"
    using s1(3) by (simp add: update_conv')
  have vB: "\<not> validateKeyCheckSum h (createCheckSum P B) (state s1)"
    using mA s1(4) cs by (simp add: validateKeyCheckSum_def)
  from write_collided [OF s1(2) hB okB vB, of exB obfB] obtain s2 where
    s2: "run_microtasks P 2 (snd (write_call P B vB exB obfB s1)) =
           ([WriteSettled (Inr ()), NoOutcome], s2)" "idle s2"
        "data (state s2) = AList.delete h (data (state s1))"
        "last (console (state s2)) = WARNING_key_collision"
    by blast
  have gone: "map_of (data (state s2)) h = None"
    using s2(3) by (simp add: delete_conv')
  have a: "fst (write_call P A vA exA obfA s) = None"
    using write_call_accepts [OF hA okA np] by simp
  have b: "fst (write_call P B vB exB obfB s1) = None"
    using write_call_accepts [OF hB okB np1] by simp
  show ?thesis
    using a b s1(1) s2 mA gone hA hB
    by (simp add: has_def)
qed

theorem colliding_writes_leave_bucket_empty_witness:
  "idle (new_system example_platform) \<and>
   createHashKey example_platform (str ''a b'') = Inr 5863208 \<and>
   createHashKey example_platform (str ''ab'') = Inr 5863208 \<and>
   createCheckSum example_platform (str ''a b'') \<noteq> createCheckSum example_platform (str ''ab'') \<and>
   has example_platform (str ''a b'')
     (state (snd (run_microtasks example_platform 2
        (snd (write_call example_platform (str ''ab'') (VBoolean True) Never True
           (snd (run_microtasks example_platform 2
              (snd (write_call example_platform (str ''a b'') (VString (str ''first'')) Never False
                 (new_system example_platform))))))))))
   = Inr False"
proof -
  let ?P = example_platform
  have i: "idle (new_system ?P)" by (rule idle_new_system)
  have hA: "createHashKey ?P (str ''a b'') = Inr 5863208"
    and hB: "createHashKey ?P (str ''ab'') = Inr 5863208"
    by (rule example_hash)+
  have cs: "createCheckSum ?P (str ''a b'') \<noteq> createCheckSum ?P (str ''ab'')"
    by (simp add: createCheckSum_def example_platform_def str_def)
  have fr: "map_of (data (state (new_system ?P))) 5863208 = None"
    by (simp add: new_system_def Cache_fields)
  have okA: "cachable (VString (str ''first''))" and okB: "cachable (VBoolean True)"
    by (simp_all add: cachable_def str_def)
  from colliding_writes_leave_bucket_empty [OF i hA hB cs fr okA okB, of Never False Never True]
  have "has ?P (str ''a b'')
     (state (snd (run_microtasks ?P 2
        (snd (write_call ?P (str ''ab'') (VBoolean True) Never True
           (snd (run_microtasks ?P 2
              (snd (write_call ?P (str ''a b'') (VString (str ''first'')) Never False
                 (new_system ?P))))))))))
   = Inr False"
    by (simp only: Let_def split_beta)
  with i hA hB cs show ?thesis by blast
qed

text \<open>
  Claim C5 as it is written fails: it wants \<open>has(B)\<close> to be true. On a new cache, with
  the keys \<open>"a b"\<close> and \<open>"ab"\<close>, which differ only in white space and so have the same
  hashed key, \<open>has("ab")\<close> is false after both writes have drained.
\<close>

theorem second_colliding_key_absent:
  "has example_platform (str ''ab'')
     (state (snd (run_microtasks example_platform 2
        (snd (write_call example_platform (str ''ab'') (VString (str ''second'')) Never False
           (snd (run_microtasks example_platform 2
              (snd (write_call example_platform (str ''a b'') (VString (str ''first'')) Never False
                 (new_system example_platform))))))))))
   = Inr False"
  by (simp add: model_defs)

text \<open>
  Claim C10, as the code has it. Two keys \<open>k1\<close> and \<open>k2\<close> have the same hashed key. Once a \<open>write\<close> of
  \<open>k1\<close> with \<open>obfuscate = false\<close> that the collision check lets through (the bucket
  is free, or holds an entry with the checksum of \<open>k1\<close>) has drained, \<open>read(k2)\<close> is
  fulfilled with the value written, \<open>has(k2)\<close> is true and \<open>delete(k2)\<close> removes the
  entry: none of them looks at the checksum. Keys that are equal once their white space is
  removed are such keys (lemma \<open>createHashKey_whitespace\<close>).
\<close>

theorem read_ignores_checksum:
  assumes idle: "idle s"
    and h1: "createHashKey P k1 = Inr h" and h2: "createHashKey P k2 = Inr h"
    and ok: "cachable v"
    and valid: "validateKeyCheckSum h (createCheckSum P k1) (state s)"
  shows "(let s1 = snd (run_microtasks P 2 (snd (write_call P k1 v ttl False s)))
          in fst (run_microtasks P 1 (read_call k2 s1)) = [ReadSettled (Inr (Some v))] \<and>
             has P k2 (state s1) = Inr True \<and>
             fst (delete_key P k2 (state s1)) = Inr True)"
proof -
  from write_stored [OF idle h1 ok valid, of ttl False] obtain outs s1 where
    s1: "run_microtasks P 2 (snd (write_call P k1 v ttl False s)) = (outs, s1)" "idle s1"
        "data (state s1) = AList.update h (length (heap (state s))) (data (state s))"
        "heap (state s1) =
             heap (state s) @
               [\<lparr> val = v, expiresOn = ttl, isObfusacated = False, vtype = typeOf v,
                  checksum = createCheckSum P k1 \<rparr>]"
    by auto
  have m: "map_of (data (state s1)) h = Some (length (heap (state s)))"
    using s1(3) by (simp add: update_conv')
  have r: "read_resume P k2 (state s1) = Inr (Some v)"
    using m s1(4) h2 by (simp add: read_resume_def)
  show ?thesis
    using s1(1) read_settles [OF s1(2), of P 0 k2] r m h2
    by (simp add: has_def delete_key_def)
qed

theorem read_ignores_checksum_witness:
  "idle (new_system example_platform) \<and>
   createHashKey example_platform (str ''a b'') = Inr 5863208 \<and>
   createHashKey example_platform (str ''ab'') = Inr 5863208 \<and>
   str ''a b'' \<noteq> str ''ab'' \<and>
   fst (run_microtasks example_platform 1
          (read_call (str ''ab'')
             (snd (run_microtasks example_platform 2
                (snd (write_call example_platform (str ''a b'') (VString (str ''first''))
                        (Duration 1000) False (new_system example_platform)))))))
     = [ReadSettled (Inr (Some (VString (str ''first''))))] \<and>
   has example_platform (str ''ab'')
     (state (snd (run_microtasks example_platform 2
                (snd (write_call example_platform (str ''a b'') (VString (str ''first''))
                        (Duration 1000) False (new_system example_platform))))))
     = Inr True"
proof -
  let ?P = example_platform
  have i: "idle (new_system ?P)" by (rule idle_new_system)
  have h1: "createHashKey ?P (str ''a b'') = Inr 5863208"
    and h2: "createHashKey ?P (str ''ab'') = Inr 5863208"
    by (rule example_hash)+
  have ne: "str ''a b'' \<noteq> str ''ab''" by (simp add: str_def)
  have ok: "cachable (VString (str ''first''))" by (simp add: cachable_def str_def)
  have v: "validateKeyCheckSum 5863208 (createCheckSum ?P (str ''a b'')) (state (new_system ?P))"
    by (simp add: validateKeyCheckSum_def new_system_def Cache_fields)
  from read_ignores_checksum [OF i h1 h2 ok v, of "Duration 1000"]
  have "fst (run_microtasks ?P 1
          (read_call (str ''ab'')
             (snd (run_microtasks ?P 2
                (snd (write_call ?P (str ''a b'') (VString (str ''first''))
                        (Duration 1000) False (new_system ?P)))))))
     = [ReadSettled (Inr (Some (VString (str ''first''))))] \<and>
   has ?P (str ''ab'')
     (state (snd (run_microtasks ?P 2
                (snd (write_call ?P (str ''a b'') (VString (str ''first''))
                        (Duration 1000) False (new_system ?P))))))
     = Inr True"
    by (simp only: Let_def)
  with i h1 h2 ne show ?thesis by blast
qed

text \<open>
  Claim C10 as it is written fails when the bucket already holds an entry of another key,
  for instance of \<open>k2\<close> itself: the queued function of \<open>write(k1, \<dots>)\<close> then takes the
  collision branch, deletes that entry and stores nothing. On a new cache, after
  \<open>write("ab", "earlier")\<close> and then \<open>write("a b", "first")\<close> have drained,
  \<open>read("ab")\<close> is fulfilled with \<open>null\<close> and \<open>has("ab")\<close> is false.
\<close>

theorem read_after_collided_write_is_null:
  "fst (run_microtasks example_platform 1
          (read_call (str ''ab'')
             (snd (run_microtasks example_platform 2
                (snd (write_call example_platform (str ''a b'') (VString (str ''first'')) Never False
                   (snd (run_microtasks example_platform 2
                      (snd (write_call example_platform (str ''ab'') (VString (str ''earlier''))
                              Never False (new_system example_platform)))))))))))
     = [ReadSettled (Inr None)] \<and>
   has example_platform (str ''ab'')
     (state (snd (run_microtasks example_platform 2
                (snd (write_call example_platform (str ''a b'') (VString (str ''first'')) Never False
                   (snd (run_microtasks example_platform 2
                      (snd (write_call example_platform (str ''ab'') (VString (str ''earlier''))
                              Never False (new_system example_platform))))))))))
     = Inr False"
  by (simp add: model_defs)

section \<open>Properties of the obfuscator\<close>


lemma typeOf_no_colon: "58 \<notin> set (typeOf v)"
  by (cases v) (simp_all add: str_def)

lemma encode_cachable:
  assumes "fideliusCharm w = Some key" and "converttostring P v = Inr (VString s, ty)"
  shows "encode P v w =
           (VString (to_hex (randomBytes P (random_count w) 16) @ [58] @
                     to_hex (cipher P key (randomBytes P (random_count w) 16) s) @ [58] @ ty),
            w\<lparr> random_count := random_count w + 1 \<rparr>)"
  using assms by (simp add: encode_def Let_def)

lemma encode_not_serializable:
  assumes "JSON_stringify P ob = Inl e"
  shows "encode P (VObject ob) w =
           (VUndefined, w\<lparr> console := console w @ [OBFUSCATOR_ERROR_callback obfuscated e] \<rparr>)"
  using assms by (simp add: encode_def converttostring_def stringified_def)

lemma decode_encoded:
  assumes "fideliusCharm w = Some key" and "58 \<notin> set ty"
  shows "decode P (VString (to_hex iv @ [58] @ to_hex ct @ [58] @ ty)) w =
           (case decipher P key iv ct of
              None \<Rightarrow> Inl DecipherError
            | Some decrypted \<Rightarrow> toType P decrypted ty)"
  using assms by (simp add: decode_def split_encoded from_hex_to_hex del: append_Cons append_Nil
       append.simps)

lemma decode_cong:
  "fideliusCharm w' = fideliusCharm w \<Longrightarrow> decode P x w' = decode P x w"
  by (simp add: decode_def Let_def split: jsval.splits option.splits)


lemma decode_encode:
  assumes key: "fideliusCharm w = Some key"
    and conv: "converttostring P v = Inr (VString text, typeOf v)"
    and crypt: "decipher P key (randomBytes P (random_count w) 16)
                  (cipher P key (randomBytes P (random_count w) 16) text) = Some text"
  shows "decode P (fst (encode P v w)) w' = (if fideliusCharm w' = Some key
           then toType P text (typeOf v) else decode P (fst (encode P v w)) w')"
  using key crypt
  by (simp add: encode_cachable [OF key conv] decode_encoded typeOf_no_colon
      del: append_Cons append_Nil append.simps)

lemma string_round_trip:
  assumes "fideliusCharm w = Some key"
    and "decipher P key (randomBytes P (random_count w) 16)
           (cipher P key (randomBytes P (random_count w) 16) text) = Some text"
  shows "decode P (fst (encode P (VString text) w)) (snd (encode P (VString text) w)) =
           Inr (VString text)"
proof -
  have c: "converttostring P (VString text) = Inr (VString text, typeOf (VString text))"
    by (simp add: converttostring_def)
  have k: "fideliusCharm (snd (encode P (VString text) w)) = Some key"
    using assms(1) by (simp add: encode_fields)
  show ?thesis
    using decode_encode [OF assms(1) c assms(2), of "snd (encode P (VString text) w)"] k
    by (simp add: toType_def str_def)
qed

lemma boolean_round_trip:
  assumes "fideliusCharm w = Some key"
    and "decipher P key (randomBytes P (random_count w) 16)
           (cipher P key (randomBytes P (random_count w) 16)
              (if b then str ''true'' else str ''false'')) =
         Some (if b then str ''true'' else str ''false'')"
  shows "decode P (fst (encode P (VBoolean b) w)) (snd (encode P (VBoolean b) w)) =
           Inr (VBoolean b)"
proof -
  have c: "converttostring P (VBoolean b) =
      Inr (VString (if b then str ''true'' else str ''false''), typeOf (VBoolean b))"
    by (simp add: converttostring_def)
  have k: "fideliusCharm (snd (encode P (VBoolean b) w)) = Some key"
    using assms(1) by (simp add: encode_fields)
  show ?thesis
    using decode_encode [OF assms(1) c assms(2), of "snd (encode P (VBoolean b) w)"] k
    by (cases b) (simp_all add: toType_def str_def toLowerCase_def)
qed

text \<open>
  Claim C3 fails for a bigint written with \<open>obfuscate = true\<close>. Whatever the runtime,
  as long as \<open>BigInt\<close> parses what \<open>toString\<close> printed and the cipher gives the text
  back under the same key and vector, \<open>decode\<close> of \<open>encode\<close> of a bigint is the boolean
  \<open>false\<close>, and so is what \<open>read\<close> returns once the \<open>write\<close> has drained: the case
  \<open>"bigint"\<close> of \<open>toType\<close> falls into the case \<open>"boolean"\<close>. Strings and booleans do
  come back (lemmas \<open>string_round_trip\<close> and \<open>boolean_round_trip\<close>).
\<close>

theorem bigint_read_back_as_false:
  assumes key: "fideliusCharm (state s) = Some key"
    and parse: "BigInt P (bigint_toString i) = Some j"
    and crypt: "decipher P key (randomBytes P (random_count (state s)) 16)
                  (cipher P key (randomBytes P (random_count (state s)) 16) (bigint_toString i))
                = Some (bigint_toString i)"
    and idle: "idle s" and hash: "createHashKey P k = Inr h"
    and valid: "validateKeyCheckSum h (createCheckSum P k) (state s)"
  shows "decode P (fst (encode P (VBigInt i) (state s))) (snd (encode P (VBigInt i) (state s)))
           = Inr (VBoolean False) \<and>
         fst (run_microtasks P 1
                (read_call k (snd (run_microtasks P 2
                   (snd (write_call P k (VBigInt i) ttl True s))))))
           = [ReadSettled (Inr (Some (VBoolean False)))]"
proof -
  have c: "converttostring P (VBigInt i) = Inr (VString (bigint_toString i), typeOf (VBigInt i))"
    by (simp add: converttostring_def)
  have t: "toType P (bigint_toString i) (typeOf (VBigInt i)) = Inr (VBoolean False)"
    using parse bigint_toString_not_true [of i] by (simp add: toType_def str_def)
  have d: "decode P (fst (encode P (VBigInt i) (state s))) w' = Inr (VBoolean False)"
    if "fideliusCharm w' = Some key" for w'
    using decode_encode [OF key c crypt, of w'] that t by simp
  have ok: "cachable (VBigInt i)" by (simp add: cachable_def str_def)
  from write_stored [OF idle hash ok valid, of ttl True] obtain outs s1 where
    s1: "run_microtasks P 2 (snd (write_call P k (VBigInt i) ttl True s)) = (outs, s1)" "idle s1"
        "data (state s1) = AList.update h (length (heap (state s))) (data (state s))"
        "heap (state s1) =
             heap (state s) @
               [\<lparr> val = fst (encode P (VBigInt i) (state s)),
                  expiresOn = ttl, isObfusacated = True, vtype = typeOf (VBigInt i),
                  checksum = createCheckSum P k \<rparr>]"
        "fideliusCharm (state s1) = fideliusCharm (state s)"
    by auto
  have m: "map_of (data (state s1)) h = Some (length (heap (state s)))"
    using s1(3) by (simp add: update_conv')
  have r: "read_resume P k (state s1) = Inr (Some (VBoolean False))"
    using m s1(4) hash d [of "state s1"] s1(5) key by (simp add: read_resume_def)
  have k1: "fideliusCharm (snd (encode P (VBigInt i) (state s))) = Some key"
    using key by (simp add: encode_fields)
  show ?thesis
    using d [OF k1] s1(1) read_settles [OF s1(2), of P 0 k] r by simp
qed

theorem bigint_read_back_as_false_witness:
  "fideliusCharm (state (new_system example_platform)) = Some (replicate 32 0) \<and>
   BigInt example_platform (bigint_toString 5) = Some 0 \<and>
   idle (new_system example_platform) \<and>
   createHashKey example_platform (str ''k'') = Inr 177680 \<and>
   fst (run_microtasks example_platform 1
          (read_call (str ''k'') (snd (run_microtasks example_platform 2
             (snd (write_call example_platform (str ''k'') (VBigInt 5) Never True
                (new_system example_platform)))))))
     = [ReadSettled (Inr (Some (VBoolean False)))]"
proof -
  let ?P = example_platform
  have key: "fideliusCharm (state (new_system ?P)) = Some (replicate 32 0)"
    by (simp add: new_system_def Cache_fields example_platform_def)
  have parse: "BigInt ?P (bigint_toString 5) = Some 0"
    by (simp add: example_platform_def)
  have crypt: "decipher ?P (replicate 32 0) (randomBytes ?P (random_count (state (new_system ?P))) 16)
                  (cipher ?P (replicate 32 0)
                     (randomBytes ?P (random_count (state (new_system ?P))) 16) (bigint_toString 5))
                = Some (bigint_toString 5)"
    by (simp add: example_platform_def bigint_toString_def digits.simps)
  have i: "idle (new_system ?P)" by (rule idle_new_system)
  have h: "createHashKey ?P (str ''k'') = Inr 177680" by (rule example_hash)
  have v: "validateKeyCheckSum 177680 (createCheckSum ?P (str ''k'')) (state (new_system ?P))"
    by (simp add: validateKeyCheckSum_def new_system_def Cache_fields)
  from bigint_read_back_as_false [OF key parse crypt i h v, of Never]
  have "fst (run_microtasks ?P 1
          (read_call (str ''k'') (snd (run_microtasks ?P 2
             (snd (write_call ?P (str ''k'') (VBigInt 5) Never True (new_system ?P)))))))
     = [ReadSettled (Inr (Some (VBoolean False)))]"
    by blast
  with key parse i h show ?thesis by blast
qed

text \<open>
  Claim C6 fails. The setter passes to \<open>clearTimeout\<close> what \<open>#rotator\<close> stored, which is
  the function returned by \<open>setUnboundedTimeout\<close> and not a timer, so nothing is
  cancelled: whatever period \<open>d\<close> is set on a new cache, the timer of the first
  \<open>#rotator\<close> call is still the first pending timer. After the period has been set to
  one day, the timer of the
  first \<open>#rotator\<close> call is still pending beside the new one; when the new timer and the
  links of the old chain have fired, \<open>rotateKey\<close> has been called twice.
\<close>

theorem old_rotation_timer_survives:
  "existingRotatorTimerObject (Cache P) = Some (clear_function 0) \<and>
   timers (Cache P) = [(0, maxDelay, Chain rotateKey_callback (Duration_days 90 - maxDelay))] \<and>
   hd (timers (set_defaultKeyRotationDuration P d (Cache P))) =
     (0, maxDelay, Chain rotateKey_callback (Duration_days 90 - maxDelay)) \<and>
   timers (set_defaultKeyRotationDuration P (Duration_days 1) (Cache P)) =
     [(0, maxDelay, Chain rotateKey_callback (Duration_days 90 - maxDelay)),
      (1, Duration_days 1, Callback rotateKey_callback)] \<and>
   microtasks
     (fire_timer P 4 (fire_timer P 3 (fire_timer P 2 (fire_timer P 0 (fire_timer P 1
        ((new_system P)\<lparr> state := set_defaultKeyRotationDuration P (Duration_days 1) (Cache P) \<rparr>))))))
     = [EmitResume key_rotated, EmitResume key_rotated]"
  by (simp add: Cache_def rotator_def setUnboundedTimeout_def setTimeout_def Duration_days_def
      maxDelay_def maxTotalDelay_def set_defaultKeyRotationDuration_def clearTimeout_def
      new_system_def fire_timer_def rotateKey_def handleBeforeKeyRotated_def Let_def)

section \<open>The values held by the entries\<close>


section \<open>Reading while the key is rotated\<close>


lemma handleBeforeKeyRotated_single:
  assumes single: "data w = [(h, a)]"
    and dec: "decode P (val (heap w ! a)) w = Inr pv"
  shows "handleBeforeKeyRotated P w =
           (Inr (), w\<lparr> temp := Some [(h, a)],
                        heap := (heap w)[a := (heap w ! a)\<lparr> val := pv \<rparr>] \<rparr>)"
proof -
  have "decode P (val (heap w ! a)) (w\<lparr> temp := Some [(h, a)] \<rparr>) = Inr pv"
    using dec decode_cong [of "w\<lparr> temp := Some [(h, a)] \<rparr>" w] by simp
  then show ?thesis using single by (simp add: handleBeforeKeyRotated_def)
qed

lemma decode_plain:
  assumes "58 \<notin> set plain"
  shows "decode P (VString plain) w = Inl InvalidString"
  using assms by (simp add: decode_def split_no_sep)


text \<open>
  Claim C1 fails in its second part. The system is at rest and the map holds one
  obfuscated entry, whose value decodes to the string \<open>plain\<close> without a colon.
  \<open>read(k)\<close> is called and, before its continuation has run, \<open>rotateKey()\<close>. The
  handler that runs before the rotation has then written \<open>plain\<close> into the entry object,
  which the live map shares with \<open>#temp\<close>; the entry is still marked obfuscated and
  \<open>isPaused\<close> is false. The continuation of \<open>read\<close> runs next, before the listener that
  re-encodes: it finds that entry and \<open>decode\<close> throws. Without the call of \<open>rotateKey\<close>
  the same \<open>read\<close> returns \<open>plain\<close>, and so does a \<open>read\<close> made after the rotation has
  completed, provided the cipher gives the text back under the new key: the first part
  of the claim holds here.
\<close>

theorem read_in_rotation_window_sees_decoded_entry:
  assumes idle: "idle s"
    and hash: "createHashKey P k = Inr h"
    and single: "data (state s) = [(h, a)]" and addr: "a < length (heap (state s))"
    and obf: "isObfusacated (heap (state s) ! a)"
    and dec: "decode P (val (heap (state s) ! a)) (state s) = Inr (VString plain)"
    and nocolon: "58 \<notin> set plain"
    and crypt: "decipher P (randomBytes P (random_count (state s)) 32)
                  (randomBytes P (Suc (random_count (state s))) 16)
                  (cipher P (randomBytes P (random_count (state s)) 32)
                     (randomBytes P (Suc (random_count (state s))) 16) plain) = Some plain"
  shows "fst (run_microtasks P 1 (read_call k s)) = [ReadSettled (Inr (Some (VString plain)))] \<and>
         microtasks (rotateKey P (read_call k s)) = [ReadResume k, EmitResume key_rotated] \<and>
         \<not> isPaused (state (rotateKey P (read_call k s))) \<and>
         map_of (data (state (rotateKey P (read_call k s)))) h = Some a \<and>
         isObfusacated (heap (state (rotateKey P (read_call k s))) ! a) \<and>
         val (heap (state (rotateKey P (read_call k s))) ! a) = VString plain \<and>
         fst (run_microtasks P 2 (rotateKey P (read_call k s))) =
           [ReadSettled (Inl InvalidString), NoOutcome] \<and>
         fst (run_microtasks P 1
                (read_call k (snd (run_microtasks P 2 (rotateKey P (read_call k s)))))) =
           [ReadSettled (Inr (Some (VString plain)))]"
proof -
  let ?w = "state s"
  let ?e = "heap ?w ! a"
  let ?key = "randomBytes P (random_count ?w) 32"
  let ?iv = "randomBytes P (Suc (random_count ?w)) 16"
  from idle have m: "microtasks s = []" and np: "\<not> isPaused ?w"
    and iq: "idle_queue (writeQueue s)"
    by (auto simp: idle_def)
  have r0: "read_resume P k ?w = Inr (Some (VString plain))"
    using hash single obf dec by (simp add: read_resume_def)
  have a: "fst (run_microtasks P 1 (read_call k s)) = [ReadSettled (Inr (Some (VString plain)))]"
    using read_settles [OF idle, of P 0 k] r0 by simp
  have rc: "read_call k s = s\<lparr> microtasks := [ReadResume k] \<rparr>"
    using m np by (simp add: read_call_def pauseUntilOperationsResumed_def)
  let ?w2 = "?w\<lparr> temp := Some [(h, a)], heap := (heap ?w)[a := ?e\<lparr> val := VString plain \<rparr>],
                fideliusCharm := Some ?key, random_count := random_count ?w + 1 \<rparr>"
  have rk: "rotateKey P (read_call k s) =
      s\<lparr> state := ?w2, microtasks := [ReadResume k, EmitResume key_rotated] \<rparr>"
    unfolding rc using handleBeforeKeyRotated_single [OF single dec]
    by (simp add: rotateKey_def)
  have b: "microtasks (rotateKey P (read_call k s)) = [ReadResume k, EmitResume key_rotated]"
    "\<not> isPaused (state (rotateKey P (read_call k s)))"
    "map_of (data (state (rotateKey P (read_call k s)))) h = Some a"
    "isObfusacated (heap (state (rotateKey P (read_call k s))) ! a)"
    "val (heap (state (rotateKey P (read_call k s))) ! a) = VString plain"
    unfolding rk using np single addr obf by simp_all
  have r1: "read_resume P k ?w2 = Inl InvalidString"
    using hash single addr obf decode_plain [OF nocolon]
    by (simp add: read_resume_def)
  have c1: "converttostring P (VString plain) = Inr (VString plain, typeOf (VString plain))"
    by (simp add: converttostring_def)
  let ?ct = "VString (to_hex ?iv @ [58] @ to_hex (cipher P ?key ?iv plain) @ [58] @
                      typeOf (VString plain))"
  let ?w3 = "?w\<lparr> temp := Some [], heap := (heap ?w)[a := ?e\<lparr> val := ?ct \<rparr>],
                fideliusCharm := Some ?key, random_count := random_count ?w + 2,
                data := [(h, a)], isPaused := False \<rparr>"
  have hk: "handleKeyRotated P ?w2 = (Inr (), ?w3)"
    using addr encode_cachable [of "destroy (?w2\<lparr> isPaused := True \<rparr>)" ?key P "VString plain"
        plain "typeOf (VString plain)"] c1
    by (simp add: handleKeyRotated_def destroy_def Let_def)
  have run2: "run_microtasks P 2 (rotateKey P (read_call k s)) =
      ([ReadSettled (Inl InvalidString), NoOutcome], s\<lparr> state := ?w3, microtasks := [] \<rparr>)"
    unfolding rk using r1 hk
    by (simp add: run_microtasks_numeral run_task_def emit_resume_def run_microtasks_empty)
  have i3: "idle (s\<lparr> state := ?w3, microtasks := [] \<rparr>)"
    using iq by (simp add: idle_def)
  have d3: "decode P ?ct ?w3 = Inr (VString plain)"
    using decode_encoded [of ?w3 ?key "typeOf (VString plain)" P ?iv "cipher P ?key ?iv plain"]
      crypt typeOf_no_colon [of "VString plain"]
    by (simp add: toType_def str_def del: append_Cons append_Nil append.simps)
  have r3: "read_resume P k ?w3 = Inr (Some (VString plain))"
    using hash addr obf d3 by (simp add: read_resume_def del: append_Cons append_Nil append.simps)
  have e: "fst (run_microtasks P 1
                (read_call k (snd (run_microtasks P 2 (rotateKey P (read_call k s)))))) =
           [ReadSettled (Inr (Some (VString plain)))]"
    unfolding run2 using read_settles [OF i3, of P 0 k] r3 by simp
  from a b run2 e show ?thesis by simp
qed


theorem read_in_rotation_window_sees_decoded_entry_witness:
  "idle (snd (run_microtasks example_platform 2
              (snd (write_call example_platform (str ''k'') (VString (str ''secret'')) Never True
                 (new_system example_platform))))) \<and>
   createHashKey example_platform (str ''k'') = Inr 177680 \<and>
   data (state (snd (run_microtasks example_platform 2
              (snd (write_call example_platform (str ''k'') (VString (str ''secret'')) Never True
                 (new_system example_platform)))))) = [(177680, 0)] \<and>
   fst (run_microtasks example_platform 2
     (rotateKey example_platform
        (read_call (str ''k'')
           (snd (run_microtasks example_platform 2
              (snd (write_call example_platform (str ''k'') (VString (str ''secret'')) Never True
                 (new_system example_platform))))))))
   = [ReadSettled (Inl InvalidString), NoOutcome]"
proof -
  let ?P = example_platform
  let ?v = "VString (str ''secret'')"
  let ?s = "snd (run_microtasks ?P 2
              (snd (write_call ?P (str ''k'') ?v Never True (new_system ?P))))"
  have i0: "idle (new_system ?P)" by (rule idle_new_system)
  have h: "createHashKey ?P (str ''k'') = Inr 177680" by (rule example_hash)
  have ok: "cachable ?v" by (simp add: cachable_def str_def)
  have v: "validateKeyCheckSum 177680 (createCheckSum ?P (str ''k'')) (state (new_system ?P))"
    by (simp add: validateKeyCheckSum_def new_system_def Cache_fields)
  have key: "fideliusCharm (state (new_system ?P)) = Some (randomBytes ?P 0 32)"
    by (simp add: new_system_def Cache_fields)
  from write_stored [OF i0 h ok v, of Never True] obtain outs s1 where
    s1: "run_microtasks ?P 2 (snd (write_call ?P (str ''k'') ?v Never True (new_system ?P)))
           = (outs, s1)" "idle s1"
        "data (state s1) = AList.update 177680 (length (heap (state (new_system ?P))))
                             (data (state (new_system ?P)))"
        "heap (state s1) = heap (state (new_system ?P)) @
               [\<lparr> val = fst (encode ?P ?v (state (new_system ?P))),
                  expiresOn = Never, isObfusacated = True, vtype = typeOf ?v,
                  checksum = createCheckSum ?P (str ''k'') \<rparr>]"
        "fideliusCharm (state s1) = fideliusCharm (state (new_system ?P))"
    by auto
  have eq: "?s = s1" using s1(1) by simp
  have i: "idle ?s" using s1(2) eq by simp
  have single: "data (state ?s) = [(177680, 0)]"
    unfolding eq using s1(3) by (simp add: new_system_def Cache_fields)
  have hp: "heap (state ?s) = [\<lparr> val = fst (encode ?P ?v (state (new_system ?P))),
                  expiresOn = Never, isObfusacated = True, vtype = typeOf ?v,
                  checksum = createCheckSum ?P (str ''k'') \<rparr>]"
    unfolding eq using s1(4) by (simp add: new_system_def Cache_fields)
  have addr: "0 < length (heap (state ?s))" unfolding hp by simp
  have obf: "isObfusacated (heap (state ?s) ! 0)" unfolding hp by simp
  have c: "converttostring ?P ?v = Inr (VString (str ''secret''), typeOf ?v)"
    by (simp add: converttostring_def)
  have cr0: "decipher ?P (randomBytes ?P 0 32)
               (randomBytes ?P (random_count (state (new_system ?P))) 16)
               (cipher ?P (randomBytes ?P 0 32)
                  (randomBytes ?P (random_count (state (new_system ?P))) 16) (str ''secret''))
             = Some (str ''secret'')"
    by (simp add: example_platform_def str_def)
  have k1: "fideliusCharm (state ?s) = Some (randomBytes ?P 0 32)"
    unfolding eq using s1(5) key by simp
  have dec: "decode ?P (val (heap (state ?s) ! 0)) (state ?s) = Inr (VString (str ''secret''))"
    unfolding hp using decode_encode [OF key c cr0, of "state ?s"] k1
    by (simp add: toType_def str_def)
  have nocolon: "58 \<notin> set (str ''secret'')" by (simp add: str_def)
  have crypt: "decipher ?P (randomBytes ?P (random_count (state ?s)) 32)
                  (randomBytes ?P (Suc (random_count (state ?s))) 16)
                  (cipher ?P (randomBytes ?P (random_count (state ?s)) 32)
                     (randomBytes ?P (Suc (random_count (state ?s))) 16) (str ''secret''))
               = Some (str ''secret'')"
    by (simp add: example_platform_def str_def)
  from read_in_rotation_window_sees_decoded_entry [OF i h single addr obf dec nocolon crypt]
  have "fst (run_microtasks ?P 2 (rotateKey ?P (read_call (str ''k'') ?s)))
          = [ReadSettled (Inl InvalidString), NoOutcome]"
    by blast
  with i h single show ?thesis by blast
qed

end
